theory Spec2Isabelle
  imports Main
begin

section \<open>Delimited strings of integers\<close>

text \<open>
  The list-valued columns (\<open>white_list_users\<close>, \<open>black_list_users\<close>, \<open>admins\<close>,
  \<open>plugins\<close>) are written with \<^verbatim>\<open>array.join(',')\<close> and read back with
  \<^verbatim>\<open>toArrayNumber\<close>. The numbers are user and plugin ids: safe integers, printed by
  JavaScript in decimal, with a leading minus sign when negative.
\<close>

definition digit_char :: "nat \<Rightarrow> char" where
  "digit_char d = char_of (48 + d)"

fun digits :: "nat \<Rightarrow> string" where
  "digits n = (if n < 10 then [digit_char n] else digits (n div 10) @ [digit_char (n mod 10)])"

declare digits.simps [simp del]

text \<open>
  The integers that a JavaScript number holds exactly: up to \<^verbatim>\<open>Number.MAX_SAFE_INTEGER\<close>,
  which is \<open>2^53 - 1\<close>, in magnitude.
\<close>

definition safe_integer :: "int \<Rightarrow> bool" where
  "safe_integer i = (- 9007199254740991 \<le> i \<and> i \<le> 9007199254740991)"

text \<open>
  \<^verbatim>\<open>String(i)\<close> for a safe integer \<open>i\<close>, as \<^verbatim>\<open>join\<close> applies it to each element: its
  decimal digits. Beyond the safe integers a JavaScript number is a rounded value, printed
  with the digits of the rounding and, from \<open>10^21\<close>, in exponent form; \<open>number_toString\<close>
  is the model of the printing for safe integers only.
\<close>

definition number_toString :: "int \<Rightarrow> string" where
  "number_toString i = (if i < 0 then CHR ''-'' # digits (nat (- i)) else digits (nat i))"

text \<open>\<^verbatim>\<open>Array.prototype.join(sep)\<close> on the printed elements.\<close>

fun array_join :: "string \<Rightarrow> string list \<Rightarrow> string" where
  "array_join sep [] = []"
| "array_join sep [x] = x"
| "array_join sep (x # y # ys) = x @ sep @ array_join sep (y # ys)"

definition join_numbers :: "int list \<Rightarrow> string" where
  "join_numbers xs = array_join '','' (map number_toString xs)"

text \<open>\<^verbatim>\<open>String.prototype.split(',')\<close>: the empty string splits into one empty piece.\<close>

fun split_commas :: "string \<Rightarrow> string list" where
  "split_commas [] = [[]]"
| "split_commas (c # cs) =
     (if c = CHR '','' then [] # split_commas cs
      else (case split_commas cs of [] \<Rightarrow> [[c]] | p # ps \<Rightarrow> (c # p) # ps))"

definition is_digit :: "char \<Rightarrow> bool" where
  "is_digit c = (48 \<le> (of_char c :: nat) \<and> (of_char c :: nat) \<le> 57)"

definition digit_value :: "char \<Rightarrow> nat" where
  "digit_value c = of_char c - 48"

definition nat_of_digits :: "string \<Rightarrow> nat" where
  "nat_of_digits ds = foldl (\<lambda>a c. 10 * a + digit_value c) 0 ds"

text \<open>A piece read as a decimal integer; \<open>None\<close> when it is not one.\<close>

definition parse_number :: "string \<Rightarrow> int option" where
  "parse_number s =
     (case s of
        [] \<Rightarrow> None
      | c # cs \<Rightarrow>
          if c = CHR ''-'' then
            (if cs \<noteq> [] \<and> list_all is_digit cs then Some (- int (nat_of_digits cs)) else None)
          else if list_all is_digit s then Some (int (nat_of_digits s)) else None)"

text \<open>
  Modelled from the spec: \<^verbatim>\<open>toArrayNumber\<close> is imported from \<^verbatim>\<open>../utils\<close>, which is
  not among the source files. The spec says that a list-valued field is persisted as a
  delimited string and parsed into an ordered sequence of integers on read, and that an
  empty value parses to the empty sequence. The delimiter is the comma that the writers
  (\<^verbatim>\<open>join(',')\<close>, in the source) use. The spec does not say what a piece that is not a
  decimal integer becomes; the model reads it as 0.
\<close>

definition toArrayNumber :: "string \<Rightarrow> int list" where
  "toArrayNumber s =
     (if s = [] then []
      else map (\<lambda>p. case parse_number p of None \<Rightarrow> 0 | Some n \<Rightarrow> n) (split_commas s))"

text \<open>\<^verbatim>\<open>uniq\<close> of lodash: the first occurrence of every element, in order.\<close>

fun uniq :: "int list \<Rightarrow> int list" where
  "uniq [] = []"
| "uniq (x # xs) = x # uniq (filter (\<lambda>y. y \<noteq> x) xs)"


section \<open>The persisted tables\<close>

datatype error = StoreError

text \<open>A row of table \<open>plugins\<close> and a row of table \<open>groups\<close>, as \<^verbatim>\<open>checkTables\<close> creates them.\<close>

record data_plugin =
  p_id :: int
  p_name :: string
  p_enabled :: bool
  p_white_list_users :: string
  p_black_list_users :: string
  p_internal :: bool
  p_threshold :: int

record data_group =
  g_id :: int
  g_name :: string
  g_group_id :: int
  g_admins :: string
  g_expired_at :: string
  g_plugins :: string

text \<open>
  The store behind \<^verbatim>\<open>this.db\<close>: the two tables, the auto-increment counters of their
  \<open>id\<close> columns, and whether the store answers at all (\<open>down\<close>: every query of a store
  that is down throws). \<open>plugin_selects\<close> is an observation counter, not a field of the
  program: the number of \<^verbatim>\<open>select('*')\<close> queries issued on table \<open>plugins\<close> so far.
\<close>

record store =
  plugins_table :: "data_plugin list"
  groups_table :: "data_group list"
  plugins_seq :: int
  groups_seq :: int
  down :: bool
  plugin_selects :: nat


section \<open>The class \<open>Database\<close>\<close>

record IMvcPlugin =
  plugin_id :: int
  plugin_name :: string
  plugin_enabled :: bool
  plugin_internal :: bool
  plugin_threshold :: int
  white_list_users :: "int list"
  black_list_users :: "int list"

text \<open>
  A group object. Its \<open>plugins\<close> array is the one object of the program that is mutated
  after its creation (by \<^verbatim>\<open>push\<close> and \<^verbatim>\<open>splice\<close> in \<^verbatim>\<open>getAvailablePlugins\<close>), so the
  field holds a reference into the heap \<open>arrays\<close> of the state. Every other field, and
  every plugin object, is only read, and is held by value.
\<close>

record IMvcGroup =
  group_row_id :: int
  group_name :: string
  group_id :: int
  expired_at :: string
  admins :: "int list"
  plugins :: nat

text \<open>
  The fields of a \<open>Database\<close> object: the store, the runtime name lists, the caches, and
  the heap of \<open>plugins\<close> arrays with its allocation pointer. \<open>cacheTime\<close> is the value of
  \<^verbatim>\<open>getCacheTime()\<close>, which the interface module (not among the sources) computes.
\<close>

record database =
  db :: store
  registeredPlugins :: "string list"
  registeredExternalPlugins :: "string list"
  cacheTime :: int
  groupCache :: "int \<rightharpoonup> IMvcGroup"
  pluginCache :: "IMvcPlugin list option"
  cacheTimeMap :: "string \<rightharpoonup> int"
  arrays :: "nat \<Rightarrow> int list"
  next_ref :: nat

definition cacheKeys_plugins :: string where
  "cacheKeys_plugins = ''plugins''"

definition cacheKeys_groups :: string where
  "cacheKeys_groups = ''groups''"

text \<open>A new \<open>Database\<close> over a store: empty name lists, empty caches.\<close>

definition new_database :: "store \<Rightarrow> int \<Rightarrow> database" where
  "new_database st ttl =
     \<lparr>db = st, registeredPlugins = [], registeredExternalPlugins = [], cacheTime = ttl,
      groupCache = Map.empty, pluginCache = None, cacheTimeMap = Map.empty,
      arrays = (\<lambda>_. []), next_ref = 0\<rparr>"

definition empty_store :: store where
  "empty_store =
     \<lparr>plugins_table = [], groups_table = [], plugins_seq = 0, groups_seq = 0,
      down = False, plugin_selects = 0\<rparr>"

subsection \<open>Registration\<close>

text \<open>
  \<^verbatim>\<open>registerPlugin(opts, configs)\<close>; \<open>internal\<close> and \<open>external\<close> are optional and default
  to false. A method that throws leaves the state it had reached, so every method returns
  the state beside its result or error.
\<close>

definition registerPlugin ::
  "database \<Rightarrow> string \<Rightarrow> bool option \<Rightarrow> bool option \<Rightarrow> (error + unit) \<times> database" where
  "registerPlugin s name internal_opt external_opt =
     (let external = (case external_opt of None \<Rightarrow> False | Some b \<Rightarrow> b);
          internal = (case internal_opt of None \<Rightarrow> False | Some b \<Rightarrow> b)
      in if down (db s) then (Inl StoreError, s)
         else
           let has = find (\<lambda>r. p_name r = name) (plugins_table (db s));
               s1 = (if has = None then
                       s\<lparr>db := (db s)\<lparr>plugins_table := plugins_table (db s) @
                              [\<lparr>p_id = plugins_seq (db s) + 1, p_name = name, p_enabled = True,
                                p_white_list_users = [], p_black_list_users = [],
                                p_internal = internal, p_threshold = 2\<rparr>],
                            plugins_seq := plugins_seq (db s) + 1\<rparr>\<rparr>
                     else s);
               s2 = (if name \<notin> set (registeredPlugins s1)
                     then s1\<lparr>registeredPlugins := registeredPlugins s1 @ [name]\<rparr> else s1);
               s3 = (if external \<and> name \<notin> set (registeredExternalPlugins s2)
                     then s2\<lparr>registeredExternalPlugins := registeredExternalPlugins s2 @ [name]\<rparr>
                     else s2)
           in (Inr (), s3))"

definition clearExternalPlugins :: "database \<Rightarrow> database" where
  "clearExternalPlugins s =
     s\<lparr>registeredPlugins :=
         filter (\<lambda>name. name \<notin> set (registeredExternalPlugins s)) (registeredPlugins s),
       registeredExternalPlugins := []\<rparr>"

subsection \<open>The cache timer\<close>

text \<open>
  \<^verbatim>\<open>Date.now()\<close> is an input: every method takes the readings of the clock it makes, in
  the order it makes them. \<^verbatim>\<open>if (latest)\<close> is false for an absent timestamp and for the
  timestamp 0.
\<close>

definition isCacheExpired :: "database \<Rightarrow> string \<Rightarrow> int \<Rightarrow> bool" where
  "isCacheExpired s key now =
     (case cacheTimeMap s key of
        None \<Rightarrow> True
      | Some latest \<Rightarrow>
          if latest \<noteq> 0 then (if now - latest < cacheTime s then False else True) else True)"

definition updateCacheTimeMap :: "database \<Rightarrow> string \<Rightarrow> int \<Rightarrow> database" where
  "updateCacheTimeMap s key now = s\<lparr>cacheTimeMap := (cacheTimeMap s)(key \<mapsto> now)\<rparr>"

subsection \<open>Reading the tables\<close>

definition mvcPlugin :: "data_plugin \<Rightarrow> IMvcPlugin" where
  "mvcPlugin plugin =
     \<lparr>plugin_id = p_id plugin, plugin_name = p_name plugin, plugin_enabled = p_enabled plugin,
      plugin_internal = p_internal plugin, plugin_threshold = p_threshold plugin,
      white_list_users = toArrayNumber (p_white_list_users plugin),
      black_list_users = toArrayNumber (p_black_list_users plugin)\<rparr>"

definition getPlugins :: "database \<Rightarrow> (error + IMvcPlugin list) \<times> database" where
  "getPlugins s =
     (let s1 = s\<lparr>db := (db s)\<lparr>plugin_selects := Suc (plugin_selects (db s))\<rparr>\<rparr>
      in if down (db s) then (Inl StoreError, s1)
         else (Inr (filter (\<lambda>p. plugin_name p \<in> set (registeredPlugins s))
                      (map mvcPlugin (plugins_table (db s)))), s1))"

text \<open>A new array object on the heap.\<close>

definition alloc :: "int list \<Rightarrow> database \<Rightarrow> nat \<times> database" where
  "alloc xs s =
     (next_ref s, s\<lparr>arrays := (arrays s)(next_ref s := xs), next_ref := Suc (next_ref s)\<rparr>)"

fun mvcGroups :: "data_group list \<Rightarrow> database \<Rightarrow> IMvcGroup list \<times> database" where
  "mvcGroups [] s = ([], s)"
| "mvcGroups (g # gs) s =
     (case alloc (toArrayNumber (g_plugins g)) s of
        (r, s1) \<Rightarrow>
          (case mvcGroups gs s1 of
             (ms, s2) \<Rightarrow>
               (\<lparr>group_row_id = g_id g, group_name = g_name g, group_id = g_group_id g,
                 expired_at = g_expired_at g, admins = toArrayNumber (g_admins g),
                 plugins = r\<rparr> # ms, s2)))"

definition getGroups :: "database \<Rightarrow> (error + IMvcGroup list) \<times> database" where
  "getGroups s =
     (if down (db s) then (Inl StoreError, s)
      else (case mvcGroups (groups_table (db s)) s of (ms, s1) \<Rightarrow> (Inr ms, s1)))"

definition getInternalPluginIds :: "database \<Rightarrow> (error + int list) \<times> database" where
  "getInternalPluginIds s =
     (case getPlugins s of
        (Inl e, s1) \<Rightarrow> (Inl e, s1)
      | (Inr ps, s1) \<Rightarrow> (Inr (map plugin_id (filter plugin_internal ps)), s1))"

subsection \<open>The read-through caches\<close>

text \<open>
  \<^verbatim>\<open>getPluginListFromCache\<close>: \<open>t_check\<close> is the clock as \<^verbatim>\<open>isCacheExpired\<close> reads it,
  \<open>t_update\<close> as \<^verbatim>\<open>updateCacheTimeMap\<close> reads it after the fetch. An array is truthy
  even when empty, so \<^verbatim>\<open>cache && ...\<close> asks whether a snapshot exists.
\<close>

definition getPluginListFromCache ::
  "database \<Rightarrow> int \<Rightarrow> int \<Rightarrow> (error + IMvcPlugin list) \<times> database" where
  "getPluginListFromCache s t_check t_update =
     (case (if isCacheExpired s cacheKeys_plugins t_check then None else pluginCache s) of
        Some cache \<Rightarrow> (Inr cache, s)
      | None \<Rightarrow>
          (case getPlugins s of
             (Inl e, s1) \<Rightarrow> (Inl e, s1)
           | (Inr ps, s1) \<Rightarrow>
               let s2 = s1\<lparr>pluginCache := Some (filter plugin_enabled ps)\<rparr>;
                   s3 = updateCacheTimeMap s2 cacheKeys_plugins t_update
               in (Inr (filter plugin_enabled ps), s3)))"

text \<open>
  \<^verbatim>\<open>getGroupMapFromCache\<close>: the refresh sets the entry of every group read from the
  store and removes none. The result is the group object of the entry, or \<open>None\<close> for
  \<^verbatim>\<open>undefined\<close>.
\<close>

definition getGroupMapFromCache ::
  "database \<Rightarrow> int \<Rightarrow> int \<Rightarrow> int \<Rightarrow> (error + IMvcGroup option) \<times> database" where
  "getGroupMapFromCache s groupId t_check t_update =
     (case (if isCacheExpired s cacheKeys_groups t_check then None else groupCache s groupId) of
        Some cache \<Rightarrow> (Inr (Some cache), s)
      | None \<Rightarrow>
          (case getGroups s of
             (Inl e, s1) \<Rightarrow> (Inl e, s1)
           | (Inr groups, s1) \<Rightarrow>
               let s2 = foldl (\<lambda>st g. st\<lparr>groupCache := (groupCache st)(group_id g \<mapsto> g)\<rparr>)
                          s1 groups;
                   s3 = updateCacheTimeMap s2 cacheKeys_groups t_update
               in (Inr (groupCache s3 groupId), s3)))"

subsection \<open>Permission resolution\<close>

definition isGroupAdmin ::
  "database \<Rightarrow> int \<Rightarrow> int \<Rightarrow> int \<Rightarrow> int \<Rightarrow> (error + bool) \<times> database" where
  "isGroupAdmin s groupId userId t_check t_update =
     (case getGroupMapFromCache s groupId t_check t_update of
        (Inl e, s1) \<Rightarrow> (Inl e, s1)
      | (Inr None, s1) \<Rightarrow> (Inr False, s1)
      | (Inr (Some grp), s1) \<Rightarrow> (Inr (userId \<in> set (admins grp)), s1))"


text \<open>\<^verbatim>\<open>indexOf\<close> (-1 when absent) and \<^verbatim>\<open>splice(index, 1)\<close> (a negative index counts from the end).\<close>

fun indexOf :: "int list \<Rightarrow> int \<Rightarrow> int" where
  "indexOf [] x = - 1"
| "indexOf (y # ys) x =
     (if y = x then 0 else (let i = indexOf ys x in if i < 0 then - 1 else i + 1))"

definition splice1 :: "int list \<Rightarrow> int \<Rightarrow> int list" where
  "splice1 xs i =
     (let n = int (length xs);
          start = (if i < 0 then max (n + i) 0 else min i n)
      in take (nat start) xs @ drop (Suc (nat start)) xs)"

text \<open>
  The body of the \<^verbatim>\<open>forEach\<close> of \<^verbatim>\<open>getAvailablePlugins\<close>. \<open>ids\<close> is the reference held by
  \<^verbatim>\<open>groupAvaliablePluginsIds\<close>: \<^verbatim>\<open>push\<close> and \<^verbatim>\<open>splice\<close> write to the array it points to.
\<close>

definition forEach_body :: "int \<Rightarrow> nat \<Rightarrow> database \<Rightarrow> IMvcPlugin \<Rightarrow> database" where
  "forEach_body userId ids s p =
     (let isWhiteList = userId \<in> set (white_list_users p);
          s1 = (if isWhiteList \<and> plugin_id p \<notin> set (arrays s ids)
                then s\<lparr>arrays := (arrays s)(ids := arrays s ids @ [plugin_id p])\<rparr> else s);
          isBlackList = userId \<in> set (black_list_users p)
      in if isBlackList \<and> plugin_id p \<in> set (arrays s1 ids)
         then (let index = indexOf (arrays s1 ids) (plugin_id p)
               in s1\<lparr>arrays := (arrays s1)(ids := splice1 (arrays s1 ids) index)\<rparr>)
         else s1)"

text \<open>\<^verbatim>\<open>filter(Boolean)\<close> on names: \<^verbatim>\<open>undefined\<close> and the empty string are dropped.\<close>

fun filter_Boolean :: "string option list \<Rightarrow> string list" where
  "filter_Boolean [] = []"
| "filter_Boolean (None # ns) = filter_Boolean ns"
| "filter_Boolean (Some n # ns) = (if n = [] then filter_Boolean ns else n # filter_Boolean ns)"

text \<open>
  \<^verbatim>\<open>getAvailablePlugins({groupId, userId})\<close>; \<open>userId\<close> is optional, and \<^verbatim>\<open>if (userId)\<close> is
  false for an absent id and for the id 0. \<open>tg_check\<close>, \<open>tg_update\<close> are the clock readings
  of the group lookup, \<open>tp_check\<close>, \<open>tp_update\<close> those of the catalog lookup.
\<close>

definition getAvailablePlugins ::
  "database \<Rightarrow> int \<Rightarrow> int option \<Rightarrow> int \<Rightarrow> int \<Rightarrow> int \<Rightarrow> int \<Rightarrow> (error + string list) \<times> database" where
  "getAvailablePlugins s groupId userId tg_check tg_update tp_check tp_update =
     (case getGroupMapFromCache s groupId tg_check tg_update of
        (Inl e, s1) \<Rightarrow> (Inl e, s1)
      | (Inr None, s1) \<Rightarrow> (Inr [], s1)
      | (Inr (Some grp), s1) \<Rightarrow>
          (let groupAvaliablePluginsIds = plugins grp
           in case getPluginListFromCache s1 tp_check tp_update of
                (Inl e, s2) \<Rightarrow> (Inl e, s2)
              | (Inr pluginsList, s2) \<Rightarrow>
                  let pluginMap = foldl (\<lambda>acc cur. acc(plugin_id cur \<mapsto> cur)) Map.empty pluginsList;
                      s3 = (case userId of
                              None \<Rightarrow> s2
                            | Some u \<Rightarrow>
                                if u \<noteq> 0
                                then foldl (forEach_body u groupAvaliablePluginsIds) s2 pluginsList
                                else s2);
                      groupAvaliablePluginsNames =
                        map (\<lambda>i. map_option plugin_name (pluginMap i))
                          (arrays s3 groupAvaliablePluginsIds)
                  in (Inr (filter_Boolean groupAvaliablePluginsNames), s3)))"

subsection \<open>Administrative operations\<close>

text \<open>
  The argument of \<^verbatim>\<open>updatePlugin\<close> and of \<^verbatim>\<open>updateGroup\<close> is a partial object: \<open>id\<close> and
  the fields to set. The argument of \<^verbatim>\<open>addGroup\<close> is a group without \<open>id\<close>, which the
  store assigns; its \<open>plugins\<close> may be absent (\<^verbatim>\<open>group.plugins || []\<close>).
\<close>

record plugin_patch =
  pp_id :: int
  pp_name :: "string option"
  pp_enabled :: "bool option"
  pp_internal :: "bool option"
  pp_threshold :: "int option"
  pp_white_list_users :: "int list option"
  pp_black_list_users :: "int list option"

record group_patch =
  gp_id :: int
  gp_name :: "string option"
  gp_group_id :: "int option"
  gp_expired_at :: "string option"
  gp_admins :: "int list option"
  gp_plugins :: "int list option"

record group_input =
  in_name :: string
  in_group_id :: int
  in_expired_at :: string
  in_admins :: "int list"
  in_plugins :: "int list option"

definition or_else :: "'a option \<Rightarrow> 'a \<Rightarrow> 'a" where
  "or_else v d = (case v of None \<Rightarrow> d | Some x \<Rightarrow> x)"

text \<open>
  \<^verbatim>\<open>updatePlugin\<close>: the lists given are joined, then the row with this \<open>id\<close> is updated
  with the fields given. Column \<open>name\<close> is unique, so an update to a name that another row
  has is refused by the store. The result is the number of rows updated, or \<open>None\<close> for
  the \<^verbatim>\<open>undefined\<close> of an unknown \<open>id\<close>.
\<close>

definition updatePlugin :: "database \<Rightarrow> plugin_patch \<Rightarrow> (error + nat option) \<times> database" where
  "updatePlugin s plugin =
     (if down (db s) then (Inl StoreError, s)
      else
        (case find (\<lambda>r. p_id r = pp_id plugin) (plugins_table (db s)) of
           None \<Rightarrow> (Inr None, s)
         | Some has \<Rightarrow>
             let black = map_option join_numbers (pp_black_list_users plugin);
                 white = map_option join_numbers (pp_white_list_users plugin)
             in if list_ex (\<lambda>r. p_id r \<noteq> pp_id plugin \<and> Some (p_name r) = pp_name plugin)
                     (plugins_table (db s))
                then (Inl StoreError, s)
                else
                  (Inr (Some (length (filter (\<lambda>r. p_id r = pp_id plugin) (plugins_table (db s))))),
                   s\<lparr>db := (db s)\<lparr>plugins_table :=
                        map (\<lambda>r. if p_id r = pp_id plugin
                                  then r\<lparr>p_name := or_else (pp_name plugin) (p_name r),
                                         p_enabled := or_else (pp_enabled plugin) (p_enabled r),
                                         p_internal := or_else (pp_internal plugin) (p_internal r),
                                         p_threshold := or_else (pp_threshold plugin) (p_threshold r),
                                         p_white_list_users := or_else white (p_white_list_users r),
                                         p_black_list_users := or_else black (p_black_list_users r)\<rparr>
                                  else r)
                          (plugins_table (db s))\<rparr>\<rparr>)))"

text \<open>
  \<^verbatim>\<open>updateGroup\<close>: when \<open>plugins\<close> is given, the ids of the internal plugins are put in
  front of it. Column \<open>group_id\<close> is unique.
\<close>

definition updateGroup :: "database \<Rightarrow> group_patch \<Rightarrow> (error + nat option) \<times> database" where
  "updateGroup s grp =
     (if down (db s) then (Inl StoreError, s)
      else
        (case find (\<lambda>r. g_id r = gp_id grp) (groups_table (db s)) of
           None \<Rightarrow> (Inr None, s)
         | Some has \<Rightarrow>
             let admins_str = map_option join_numbers (gp_admins grp)
             in case (case gp_plugins grp of
                        None \<Rightarrow> (Inr None, s)
                      | Some given \<Rightarrow>
                          (case getInternalPluginIds s of
                             (Inl e, s1) \<Rightarrow> (Inl e, s1)
                           | (Inr internalIds, s1) \<Rightarrow>
                               (Inr (Some (join_numbers (uniq (internalIds @ given)))), s1))) of
                  (Inl e, s1) \<Rightarrow> (Inl e, s1)
                | (Inr plugins_str, s1) \<Rightarrow>
                    if list_ex (\<lambda>r. g_id r \<noteq> gp_id grp \<and> Some (g_group_id r) = gp_group_id grp)
                         (groups_table (db s1))
                    then (Inl StoreError, s1)
                    else
                      (Inr (Some (length (filter (\<lambda>r. g_id r = gp_id grp) (groups_table (db s1))))),
                       s1\<lparr>db := (db s1)\<lparr>groups_table :=
                            map (\<lambda>r. if g_id r = gp_id grp
                                      then r\<lparr>g_name := or_else (gp_name grp) (g_name r),
                                             g_group_id := or_else (gp_group_id grp) (g_group_id r),
                                             g_expired_at := or_else (gp_expired_at grp) (g_expired_at r),
                                             g_admins := or_else admins_str (g_admins r),
                                             g_plugins := or_else plugins_str (g_plugins r)\<rparr>
                                      else r)
                              (groups_table (db s1))\<rparr>\<rparr>)))"

text \<open>\<^verbatim>\<open>addGroup\<close>; the result is the \<open>id\<close> of the new row.\<close>

definition addGroup :: "database \<Rightarrow> group_input \<Rightarrow> (error + int) \<times> database" where
  "addGroup s grp =
     (case getInternalPluginIds s of
        (Inl e, s1) \<Rightarrow> (Inl e, s1)
      | (Inr internalPluginIds, s1) \<Rightarrow>
          let plugins_list = uniq (internalPluginIds @ or_else (in_plugins grp) []);
              admins_str = join_numbers (in_admins grp);
              plugins_str = join_numbers plugins_list
          in if down (db s1) \<or> list_ex (\<lambda>r. g_group_id r = in_group_id grp) (groups_table (db s1))
             then (Inl StoreError, s1)
             else
               (Inr (groups_seq (db s1) + 1),
                s1\<lparr>db := (db s1)\<lparr>groups_table := groups_table (db s1) @
                       [\<lparr>g_id = groups_seq (db s1) + 1, g_name = in_name grp,
                         g_group_id = in_group_id grp, g_admins = admins_str,
                         g_expired_at = in_expired_at grp, g_plugins = plugins_str\<rparr>],
                     groups_seq := groups_seq (db s1) + 1\<rparr>\<rparr>))"

text \<open>\<^verbatim>\<open>deleteGroup\<close>; the result is the number of rows deleted.\<close>

definition deleteGroup :: "database \<Rightarrow> int \<Rightarrow> (error + nat) \<times> database" where
  "deleteGroup s i =
     (if down (db s) then (Inl StoreError, s)
      else
        (Inr (length (filter (\<lambda>r. g_id r = i) (groups_table (db s)))),
         s\<lparr>db := (db s)\<lparr>groups_table := filter (\<lambda>r. g_id r \<noteq> i) (groups_table (db s))\<rparr>\<rparr>))"

subsection \<open>Histories of registration calls\<close>

datatype call = Register string "bool option" "bool option" | ClearExternal

fun step :: "database \<Rightarrow> call \<Rightarrow> database" where
  "step s (Register name internal_opt external_opt) =
     snd (registerPlugin s name internal_opt external_opt)"
| "step s ClearExternal = clearExternalPlugins s"

definition run :: "database \<Rightarrow> call list \<Rightarrow> database" where
  "run s cs = foldl step s cs"

text \<open>
  The names registered with \<open>external = true\<close> since the last \<^verbatim>\<open>clearExternalPlugins\<close> of
  a history, and whether a call registers a name, with \<open>external = true\<close> or at all.
\<close>

definition external_since_clear :: "call list \<Rightarrow> string set" where
  "external_since_clear cs =
     foldl (\<lambda>acc c. case c of
                       Register n i e \<Rightarrow> (if e = Some True then insert n acc else acc)
                     | ClearExternal \<Rightarrow> {})
       {} cs"

fun registers :: "string \<Rightarrow> call \<Rightarrow> bool" where
  "registers n (Register m i e) = (m = n)"
| "registers n ClearExternal = False"

fun registers_external :: "string \<Rightarrow> call \<Rightarrow> bool" where
  "registers_external n (Register m i e) = (m = n \<and> e = Some True)"
| "registers_external n ClearExternal = False"

subsection \<open>The catalog and an example\<close>

text \<open>
  The snapshot a refresh of the plugin cache stores: the rows of table \<open>plugins\<close> whose
  name is registered (the filter of \<^verbatim>\<open>getPlugins\<close>) and that are enabled (the filter of
  \<^verbatim>\<open>getPluginListFromCache\<close>).
\<close>

definition catalog :: "database \<Rightarrow> IMvcPlugin list" where
  "catalog s =
     filter plugin_enabled
       (filter (\<lambda>p. plugin_name p \<in> set (registeredPlugins s))
          (map mvcPlugin (plugins_table (db s))))"

text \<open>
  A store with three registered plugins and one group, \<open>group_id\<close> 7, granted plugins 1
  and 2: user 42 is on the blacklist of plugin 2 and on the whitelist of plugin 3.
\<close>

definition example_store :: store where
  "example_store =
     \<lparr>plugins_table =
        [\<lparr>p_id = 1, p_name = ''a'', p_enabled = True, p_white_list_users = '''',
          p_black_list_users = '''', p_internal = False, p_threshold = 2\<rparr>,
         \<lparr>p_id = 2, p_name = ''b'', p_enabled = True, p_white_list_users = '''',
          p_black_list_users = ''42'', p_internal = False, p_threshold = 2\<rparr>,
         \<lparr>p_id = 3, p_name = ''c'', p_enabled = True, p_white_list_users = ''42'',
          p_black_list_users = '''', p_internal = False, p_threshold = 2\<rparr>],
      groups_table =
        [\<lparr>g_id = 1, g_name = ''g'', g_group_id = 7, g_admins = ''5'',
          g_expired_at = ''2030-01-01'', g_plugins = ''1,2''\<rparr>],
      plugins_seq = 3, groups_seq = 1, down = False, plugin_selects = 0\<rparr>"

definition example_db :: database where
  "example_db = (new_database example_store 1000)\<lparr>registeredPlugins := [''a'', ''b'', ''c'']\<rparr>"

text \<open>
  The example after a first read of the catalog at clock 5000 (timer set at 5001), and the
  same state with the store down.
\<close>

definition warm_db :: database where
  "warm_db = snd (getPluginListFromCache example_db 5000 5001)"

definition outage_db :: database where
  "outage_db = warm_db\<lparr>db := (db warm_db)\<lparr>down := True\<rparr>\<rparr>"

text \<open>
  The group of the example as \<^verbatim>\<open>getGroups\<close> reads it (its \<open>plugins\<close> array is the first
  object on the heap), a reading of \<open>expired_at\<close> texts, the example after a lookup of
  group 7 at clock 5000, and that state after \<^verbatim>\<open>deleteGroup(1)\<close> has removed the row of
  the group from the store.
\<close>

definition example_group :: IMvcGroup where
  "example_group =
     \<lparr>group_row_id = 1, group_name = ''g'', group_id = 7, expired_at = ''2030-01-01'',
      admins = [5], plugins = 0\<rparr>"


definition cached_group_db :: database where
  "cached_group_db = snd (getGroupMapFromCache example_db 7 5000 5001)"

definition deleted_group_db :: database where
  "deleted_group_db = snd (deleteGroup cached_group_db 1)"

text \<open>A new \<open>Database\<close> over an empty store, with a cache time of one second.\<close>

definition fresh_db :: database where
  "fresh_db = new_database empty_store 1000"

subsection \<open>The working set\<close>

text \<open>
  What one iteration of the \<^verbatim>\<open>forEach\<close> does to the array of ids, and what the final
  \<^verbatim>\<open>map\<close> and \<^verbatim>\<open>filter(Boolean)\<close> make of an array of ids: both are shown below to
  describe \<open>forEach_body\<close> and \<open>getAvailablePlugins\<close>.
\<close>

definition override :: "int \<Rightarrow> int list \<Rightarrow> IMvcPlugin \<Rightarrow> int list" where
  "override userId ids p =
     (let ids1 = (if userId \<in> set (white_list_users p) \<and> plugin_id p \<notin> set ids
                  then ids @ [plugin_id p] else ids)
      in if userId \<in> set (black_list_users p) \<and> plugin_id p \<in> set ids1
         then remove1 (plugin_id p) ids1 else ids1)"

definition plugin_names :: "IMvcPlugin list \<Rightarrow> int list \<Rightarrow> string list" where
  "plugin_names pluginsList ids =
     filter_Boolean
       (map (\<lambda>i. map_option plugin_name
                 (foldl (\<lambda>acc cur. acc(plugin_id cur \<mapsto> cur)) Map.empty pluginsList i))
          ids)"

text \<open>
  The catalog of the example, the example after the lookup of group 7 and the read of the
  catalog, and the example after \<^verbatim>\<open>getAvailablePlugins({groupId: 7, userId: 42})\<close>.
\<close>

definition example_catalog :: "IMvcPlugin list" where
  "example_catalog =
     [\<lparr>plugin_id = 1, plugin_name = ''a'', plugin_enabled = True, plugin_internal = False,
       plugin_threshold = 2, white_list_users = [], black_list_users = []\<rparr>,
      \<lparr>plugin_id = 2, plugin_name = ''b'', plugin_enabled = True, plugin_internal = False,
       plugin_threshold = 2, white_list_users = [], black_list_users = [42]\<rparr>,
      \<lparr>plugin_id = 3, plugin_name = ''c'', plugin_enabled = True, plugin_internal = False,
       plugin_threshold = 2, white_list_users = [42], black_list_users = []\<rparr>]"

definition resolved_db :: database where
  "resolved_db = snd (getPluginListFromCache cached_group_db 5002 5003)"

definition personalised_db :: database where
  "personalised_db = snd (getAvailablePlugins example_db 7 (Some 42) 5000 5001 5002 5003)"

subsection \<open>Internal plugins\<close>

text \<open>
  The ids of the rows of table \<open>plugins\<close> with \<open>internal = true\<close>, and the ids of those of
  them whose name is registered in the runtime.
\<close>

definition all_internal_ids :: "database \<Rightarrow> int list" where
  "all_internal_ids s = map p_id (filter p_internal (plugins_table (db s)))"

definition registered_internal_ids :: "database \<Rightarrow> int list" where
  "registered_internal_ids s =
     map p_id (filter (\<lambda>r. p_internal r \<and> p_name r \<in> set (registeredPlugins s))
                 (plugins_table (db s)))"

text \<open>
  A group to add and a patch that sets \<open>plugins\<close> to the empty list; a state with one
  registered internal plugin; a state whose one internal plugin was registered as an
  external one and then cleared from the runtime; and the first state after
  \<^verbatim>\<open>addGroup\<close> and after \<^verbatim>\<open>updateGroup\<close>.
\<close>

definition example_input :: group_input where
  "example_input =
     \<lparr>in_name = ''g'', in_group_id = 7, in_expired_at = ''2030-01-01'', in_admins = [5],
      in_plugins = Some [4]\<rparr>"

definition core_db :: database where
  "core_db = snd (registerPlugin fresh_db ''core'' (Some True) None)"

definition unregistered_internal_db :: database where
  "unregistered_internal_db =
     clearExternalPlugins (snd (registerPlugin fresh_db ''py'' (Some True) (Some True)))"

definition example_patch :: group_patch where
  "example_patch =
     \<lparr>gp_id = 1, gp_name = None, gp_group_id = None, gp_expired_at = None, gp_admins = None,
      gp_plugins = Some []\<rparr>"

definition added_db :: database where
  "added_db = snd (addGroup core_db example_input)"

definition updated_db :: database where
  "updated_db = snd (updateGroup added_db example_patch)"

text \<open>The group object that \<^verbatim>\<open>getGroups\<close> makes of a row, its \<open>plugins\<close> array at reference \<open>k\<close>.\<close>

definition mvcGroup_of :: "data_group \<Rightarrow> nat \<Rightarrow> IMvcGroup" where
  "mvcGroup_of r k =
     \<lparr>group_row_id = g_id r, group_name = g_name r, group_id = g_group_id r,
      expired_at = g_expired_at r, admins = toArrayNumber (g_admins r), plugins = k\<rparr>"

subsection \<open>Examples of updates\<close>

text \<open>
  A patch that sets the two override lists of plugin 1, a patch that sets the admins and
  the plugins of the group with \<open>id\<close> 1, and the example after each.
\<close>

definition example_plugin_patch :: plugin_patch where
  "example_plugin_patch =
     \<lparr>pp_id = 1, pp_name = None, pp_enabled = None, pp_internal = None, pp_threshold = None,
      pp_white_list_users = Some [42, 7], pp_black_list_users = Some [9]\<rparr>"

definition example_group_patch :: group_patch where
  "example_group_patch =
     \<lparr>gp_id = 1, gp_name = None, gp_group_id = None, gp_expired_at = None,
      gp_admins = Some [5, 6], gp_plugins = Some [3, 1]\<rparr>"

definition plugin_patched_db :: database where
  "plugin_patched_db = snd (updatePlugin example_db example_plugin_patch)"

definition group_patched_db :: database where
  "group_patched_db = snd (updateGroup example_db example_group_patch)"


section \<open>Serialising and parsing\<close>

text \<open>What \<^verbatim>\<open>join\<close> prints, \<^verbatim>\<open>toArrayNumber\<close> reads back.\<close>

lemma digits_ne: "digits n \<noteq> []"
  by (subst digits.simps) simp

lemma is_digit_digit_char: "d < 10 \<Longrightarrow> is_digit (digit_char d)"
  by (simp add: is_digit_def digit_char_def)

lemma digit_value_digit_char: "d < 10 \<Longrightarrow> digit_value (digit_char d) = d"
  by (simp add: digit_value_def digit_char_def)

lemma digits_all_digit: "list_all is_digit (digits n)"
proof (induction n rule: digits.induct)
  case (1 n)
  show ?case
  proof (cases "n < 10")
    case True
    then show ?thesis by (subst digits.simps) (simp add: is_digit_digit_char)
  next
    case False
    with 1 show ?thesis by (subst digits.simps) (simp add: is_digit_digit_char)
  qed
qed

lemma nat_of_digits_snoc: "nat_of_digits (ds @ [c]) = 10 * nat_of_digits ds + digit_value c"
  by (simp add: nat_of_digits_def)

lemma nat_of_digits_digits: "nat_of_digits (digits n) = n"
proof (induction n rule: digits.induct)
  case (1 n)
  show ?case
  proof (cases "n < 10")
    case True
    then show ?thesis
      by (subst digits.simps) (simp add: nat_of_digits_def digit_value_digit_char)
  next
    case False
    with 1 show ?thesis
      by (subst digits.simps) (simp add: nat_of_digits_snoc digit_value_digit_char)
  qed
qed

lemma is_digit_not_minus: "is_digit c \<Longrightarrow> c \<noteq> CHR ''-''"
  by (auto simp: is_digit_def)

lemma is_digit_not_comma: "is_digit c \<Longrightarrow> c \<noteq> CHR '',''"
  by (auto simp: is_digit_def)

lemma parse_number_toString: "parse_number (number_toString i) = Some i"
proof (cases "i < 0")
  case True
  then show ?thesis
    by (simp add: parse_number_def number_toString_def digits_ne digits_all_digit nat_of_digits_digits)
next
  case False
  obtain c cs where d: "digits (nat i) = c # cs"
    using digits_ne [of "nat i"] by (cases "digits (nat i)") auto
  have all: "list_all is_digit (c # cs)"
    using digits_all_digit [of "nat i"] d by simp
  then have "c \<noteq> CHR ''-''" by (simp add: is_digit_not_minus)
  moreover have "nat_of_digits (c # cs) = nat i"
    using nat_of_digits_digits [of "nat i"] d by simp
  ultimately show ?thesis
    using False all d by (simp add: parse_number_def number_toString_def)
qed

lemma number_toString_no_comma: "CHR '','' \<notin> set (number_toString i)"
  using digits_all_digit [of "nat i"] digits_all_digit [of "nat (- i)"]
  by (auto simp: number_toString_def list_all_iff dest: is_digit_not_comma)

lemma number_toString_ne: "number_toString i \<noteq> []"
  by (simp add: number_toString_def digits_ne)

lemma split_commas_ne: "split_commas s \<noteq> []"
  by (induction s) (auto split: list.splits)

lemma split_commas_piece: "CHR '','' \<notin> set x \<Longrightarrow> split_commas (x @ CHR '','' # rest) = x # split_commas rest"
  by (induction x) auto

lemma split_commas_single: "CHR '','' \<notin> set x \<Longrightarrow> split_commas x = [x]"
  by (induction x) auto

lemma array_join_Cons: "array_join sep (x # xs) = (if xs = [] then x else x @ sep @ array_join sep xs)"
  by (cases xs) simp_all

lemma split_commas_join:
  "xs \<noteq> [] \<Longrightarrow> list_all (\<lambda>x. CHR '','' \<notin> set x) xs \<Longrightarrow> split_commas (array_join '','' xs) = xs"
proof (induction xs)
  case Nil
  then show ?case by simp
next
  case (Cons x xs)
  then show ?case
    by (cases "xs = []") (simp_all add: array_join_Cons split_commas_single split_commas_piece)
qed

lemma array_join_ne: "xs \<noteq> [] \<Longrightarrow> list_all (\<lambda>x. x \<noteq> []) xs \<Longrightarrow> array_join sep xs \<noteq> []"
  by (cases xs) (simp_all add: array_join_Cons)

lemma toArrayNumber_join_numbers: "toArrayNumber (join_numbers xs) = xs"
proof (cases "xs = []")
  case True
  then show ?thesis by (simp add: toArrayNumber_def join_numbers_def)
next
  case False
  let ?ps = "map number_toString xs"
  have ne: "array_join '','' ?ps \<noteq> []"
    using False by (intro array_join_ne) (simp_all add: list_all_iff number_toString_ne)
  have sp: "split_commas (array_join '','' ?ps) = ?ps"
    using False by (intro split_commas_join) (simp_all add: list_all_iff number_toString_no_comma)
  show ?thesis
    using ne sp by (simp add: toArrayNumber_def join_numbers_def parse_number_toString o_def map_idI)
qed


section \<open>The plugin cache\<close>

lemma isCacheExpired_iff:
  assumes "\<And>t. cacheTimeMap s key = Some t \<Longrightarrow> t \<noteq> 0"
  shows "isCacheExpired s key now \<longleftrightarrow>
         (cacheTimeMap s key = None
          \<or> (\<exists>latest. cacheTimeMap s key = Some latest \<and> cacheTime s \<le> now - latest))"
  using assms by (auto simp: isCacheExpired_def split: option.splits)

lemma getPluginListFromCache_hit:
  assumes "pluginCache s = Some snap" "\<not> isCacheExpired s cacheKeys_plugins now"
  shows "getPluginListFromCache s now u = (Inr snap, s)"
  using assms by (simp add: getPluginListFromCache_def)

lemma getPluginListFromCache_refresh:
  assumes "isCacheExpired s cacheKeys_plugins now \<or> pluginCache s = None" "\<not> down (db s)"
  shows "getPluginListFromCache s now u =
           (Inr (catalog s),
            s\<lparr>db := (db s)\<lparr>plugin_selects := Suc (plugin_selects (db s))\<rparr>,
              pluginCache := Some (catalog s),
              cacheTimeMap := (cacheTimeMap s)(cacheKeys_plugins \<mapsto> u)\<rparr>)"
  using assms
  by (auto simp: getPluginListFromCache_def getPlugins_def updateCacheTimeMap_def catalog_def Let_def
      split: option.splits)

lemma getPluginListFromCache_fail:
  assumes "isCacheExpired s cacheKeys_plugins now \<or> pluginCache s = None" "down (db s)"
  shows "getPluginListFromCache s now u =
           (Inl StoreError, s\<lparr>db := (db s)\<lparr>plugin_selects := Suc (plugin_selects (db s))\<rparr>\<rparr>)"
  using assms
  by (auto simp: getPluginListFromCache_def getPlugins_def  Let_def
      split: option.splits)

lemma getPluginListFromCache_result_cached:
  assumes "getPluginListFromCache s now u = (Inr snap, s1)"
  shows "pluginCache s1 = Some snap"
  using assms
  by (auto simp: getPluginListFromCache_def getPlugins_def updateCacheTimeMap_def Let_def
      split: option.splits if_splits)

lemma isCacheExpired_db_update [simp]:
  "isCacheExpired (s\<lparr>db := st\<rparr>) key now = isCacheExpired s key now"
  by (simp add: isCacheExpired_def split: option.splits)

lemma isCacheExpired_window:
  "cacheTimeMap s key = Some latest \<Longrightarrow> latest \<noteq> 0 \<Longrightarrow>
   isCacheExpired s key now \<longleftrightarrow> cacheTime s \<le> now - latest"
  by (auto simp: isCacheExpired_def)

text \<open>
  C9. A cache key is expired exactly when it has no refresh timestamp or
  \<open>now - lastRefreshTimestamp \<ge> ttl\<close> (first conjunct; the timestamps are readings of
  \<^verbatim>\<open>Date.now()\<close>, which are not 0). Hence a call of the catalog getter inside the TTL
  window of the state \<open>s1\<close> that an earlier successful call left returns the identical
  snapshot and leaves the whole state as it is, the count of queries on the store
  included (second conjunct); and a call after the window, with the store up, issues
  exactly one query, replaces the snapshot by the current catalog and sets the timer to
  the clock reading \<open>u3\<close> of the refresh (third conjunct).
\<close>

theorem plugin_cache_ttl:
  "((\<forall>t. cacheTimeMap s key = Some t \<longrightarrow> t \<noteq> 0) \<longrightarrow>
      (isCacheExpired s key now \<longleftrightarrow>
         cacheTimeMap s key = None
         \<or> (\<exists>latest. cacheTimeMap s key = Some latest \<and> cacheTime s \<le> now - latest)))
   \<and> (getPluginListFromCache s t1 u1 = (Inr snap, s1)
        \<and> cacheTimeMap s1 cacheKeys_plugins = Some latest1 \<and> latest1 \<noteq> 0
        \<and> t2 - latest1 < cacheTime s1
      \<longrightarrow> getPluginListFromCache s1 t2 u2 = (Inr snap, s1))
   \<and> (cacheTimeMap s cacheKeys_plugins = Some latest \<and> latest \<noteq> 0
        \<and> cacheTime s \<le> t3 - latest \<and> \<not> down (db s)
      \<longrightarrow> getPluginListFromCache s t3 u3 =
            (Inr (catalog s),
             s\<lparr>db := (db s)\<lparr>plugin_selects := Suc (plugin_selects (db s))\<rparr>,
               pluginCache := Some (catalog s),
               cacheTimeMap := (cacheTimeMap s)(cacheKeys_plugins \<mapsto> u3)\<rparr>))"
proof (intro conjI impI)
  assume "\<forall>t. cacheTimeMap s key = Some t \<longrightarrow> t \<noteq> 0"
  then show "isCacheExpired s key now \<longleftrightarrow>
         cacheTimeMap s key = None
         \<or> (\<exists>latest. cacheTimeMap s key = Some latest \<and> cacheTime s \<le> now - latest)"
    using isCacheExpired_iff [of s key now] by blast
next
  assume a: "getPluginListFromCache s t1 u1 = (Inr snap, s1)
        \<and> cacheTimeMap s1 cacheKeys_plugins = Some latest1 \<and> latest1 \<noteq> 0
        \<and> t2 - latest1 < cacheTime s1"
  then have "pluginCache s1 = Some snap"
    using getPluginListFromCache_result_cached by blast
  moreover have "\<not> isCacheExpired s1 cacheKeys_plugins t2"
    using a by (simp add: isCacheExpired_window)
  ultimately show "getPluginListFromCache s1 t2 u2 = (Inr snap, s1)"
    by (rule getPluginListFromCache_hit)
next
  assume a: "cacheTimeMap s cacheKeys_plugins = Some latest \<and> latest \<noteq> 0
        \<and> cacheTime s \<le> t3 - latest \<and> \<not> down (db s)"
  then have "isCacheExpired s cacheKeys_plugins t3"
    by (simp add: isCacheExpired_window)
  then show "getPluginListFromCache s t3 u3 =
            (Inr (catalog s),
             s\<lparr>db := (db s)\<lparr>plugin_selects := Suc (plugin_selects (db s))\<rparr>,
               pluginCache := Some (catalog s),
               cacheTimeMap := (cacheTimeMap s)(cacheKeys_plugins \<mapsto> u3)\<rparr>)"
    using a by (simp add: getPluginListFromCache_refresh)
qed

lemma example_db_fields:
  "db example_db = example_store" "pluginCache example_db = None"
  "cacheTimeMap example_db = Map.empty" "cacheTime example_db = 1000"
  "registeredPlugins example_db = [''a'', ''b'', ''c'']"
  by (simp_all add: example_db_def new_database_def)

lemma warm_db_eq:
  "warm_db = example_db\<lparr>db := example_store\<lparr>plugin_selects := Suc 0\<rparr>,
               pluginCache := Some (catalog example_db),
               cacheTimeMap := [cacheKeys_plugins \<mapsto> 5001]\<rparr>"
proof -
  have "\<not> down (db example_db)" by (simp add: example_db_fields example_store_def)
  then show ?thesis
    unfolding warm_db_def
    by (simp add: getPluginListFromCache_refresh example_db_fields) (simp add: example_store_def)
qed

theorem plugin_cache_ttl_witness:
  "\<not> isCacheExpired warm_db cacheKeys_plugins 5500
   \<and> isCacheExpired warm_db cacheKeys_plugins 6001
   \<and> getPluginListFromCache warm_db 5500 5501 = (Inr (catalog example_db), warm_db)
   \<and> fst (getPluginListFromCache warm_db 6001 6002) = Inr (catalog warm_db)
   \<and> plugin_selects (db (snd (getPluginListFromCache warm_db 6001 6002))) = Suc (plugin_selects (db warm_db))
   \<and> cacheTimeMap (snd (getPluginListFromCache warm_db 6001 6002)) cacheKeys_plugins = Some 6002"
proof -
  have first: "getPluginListFromCache example_db 5000 5001 = (Inr (catalog example_db), warm_db)"
    unfolding warm_db_def
    by (simp add: getPluginListFromCache_refresh example_db_fields example_store_def)
  have stamp: "cacheTimeMap warm_db cacheKeys_plugins = Some 5001"
    by (simp add: warm_db_eq)
  have ttl: "cacheTime warm_db = 1000"
    by (simp add: warm_db_eq example_db_fields)
  have up: "\<not> down (db warm_db)"
    by (simp add: warm_db_eq example_store_def)
  have nz: "\<forall>t. cacheTimeMap warm_db cacheKeys_plugins = Some t \<longrightarrow> t \<noteq> 0"
    by (simp add: stamp)
  note t = plugin_cache_ttl [where s = example_db and ?t1.0 = 5000 and ?u1.0 = 5001
      and snap = "catalog example_db" and ?s1.0 = warm_db and ?latest1.0 = 5001
      and ?t2.0 = 5500 and ?u2.0 = 5501]
  note t' = plugin_cache_ttl [where s = warm_db and latest = 5001 and ?t3.0 = 6001 and ?u3.0 = 6002]
  have a: "\<not> isCacheExpired warm_db cacheKeys_plugins 5500"
    using plugin_cache_ttl [where s = warm_db and key = cacheKeys_plugins and now = 5500]
      nz stamp ttl by simp
  have b: "isCacheExpired warm_db cacheKeys_plugins 6001"
    using plugin_cache_ttl [where s = warm_db and key = cacheKeys_plugins and now = 6001]
      nz stamp ttl by simp
  have c: "getPluginListFromCache warm_db 5500 5501 = (Inr (catalog example_db), warm_db)"
    using t first stamp ttl by simp
  have d: "getPluginListFromCache warm_db 6001 6002 =
            (Inr (catalog warm_db),
             warm_db\<lparr>db := (db warm_db)\<lparr>plugin_selects := Suc (plugin_selects (db warm_db))\<rparr>,
               pluginCache := Some (catalog warm_db),
               cacheTimeMap := (cacheTimeMap warm_db)(cacheKeys_plugins \<mapsto> 6002)\<rparr>)"
    using t' stamp ttl up by simp
  show ?thesis
    using a b c by (simp add: d)
qed

lemma isCacheExpired_later:
  "isCacheExpired s key t \<Longrightarrow> t \<le> t' \<Longrightarrow> isCacheExpired s key t'"
  by (auto simp: isCacheExpired_def split: option.splits if_splits)

text \<open>
  C4. When the plugin cache has to be refreshed (it is expired, or holds no snapshot) and
  the store is down, \<^verbatim>\<open>getPluginListFromCache\<close> ends with the store's error; the state
  \<open>s1\<close> it leaves has the snapshot and the timestamps of before; and any later call for
  which the cache is not expired, whatever the store has become, returns the previous
  snapshot. (By \<open>isCacheExpired_later\<close> such a call needs a clock reading below the one
  of the failed call: with a clock that only advances, the next call refreshes again.)
\<close>

theorem refresh_failure_keeps_snapshot:
  "down (db s) \<and> (isCacheExpired s cacheKeys_plugins t \<or> pluginCache s = None) \<longrightarrow>
     (\<exists>s1. getPluginListFromCache s t u = (Inl StoreError, s1)
        \<and> pluginCache s1 = pluginCache s
        \<and> cacheTimeMap s1 = cacheTimeMap s
        \<and> (\<forall>snap st t2 u2.
              pluginCache s = Some snap \<and> \<not> isCacheExpired s1 cacheKeys_plugins t2
              \<longrightarrow> getPluginListFromCache (s1\<lparr>db := st\<rparr>) t2 u2 = (Inr snap, s1\<lparr>db := st\<rparr>)))"
proof
  assume a: "down (db s) \<and> (isCacheExpired s cacheKeys_plugins t \<or> pluginCache s = None)"
  let ?s1 = "s\<lparr>db := (db s)\<lparr>plugin_selects := Suc (plugin_selects (db s))\<rparr>\<rparr>"
  have "getPluginListFromCache s t u = (Inl StoreError, ?s1)"
    using a by (simp add: getPluginListFromCache_fail)
  moreover have "\<forall>snap st t2 u2.
              pluginCache s = Some snap \<and> \<not> isCacheExpired ?s1 cacheKeys_plugins t2
              \<longrightarrow> getPluginListFromCache (?s1\<lparr>db := st\<rparr>) t2 u2 = (Inr snap, ?s1\<lparr>db := st\<rparr>)"
    by (auto intro!: getPluginListFromCache_hit)
  ultimately show "\<exists>s1. getPluginListFromCache s t u = (Inl StoreError, s1)
        \<and> pluginCache s1 = pluginCache s
        \<and> cacheTimeMap s1 = cacheTimeMap s
        \<and> (\<forall>snap st t2 u2.
              pluginCache s = Some snap \<and> \<not> isCacheExpired s1 cacheKeys_plugins t2
              \<longrightarrow> getPluginListFromCache (s1\<lparr>db := st\<rparr>) t2 u2 = (Inr snap, s1\<lparr>db := st\<rparr>))"
    by simp
qed

theorem refresh_failure_keeps_snapshot_witness:
  "down (db outage_db) \<and> isCacheExpired outage_db cacheKeys_plugins 7000
   \<and> fst (getPluginListFromCache outage_db 7000 7001) = Inl StoreError
   \<and> pluginCache (snd (getPluginListFromCache outage_db 7000 7001)) = Some (catalog example_db)
   \<and> cacheTimeMap (snd (getPluginListFromCache outage_db 7000 7001)) cacheKeys_plugins = Some 5001
   \<and> fst (getPluginListFromCache (snd (getPluginListFromCache outage_db 7000 7001)) 5500 5501)
       = Inr (catalog example_db)"
proof -
  have dn: "down (db outage_db)"
    by (simp add: outage_db_def)
  have ex: "isCacheExpired outage_db cacheKeys_plugins 7000"
    by (simp add: outage_db_def warm_db_eq isCacheExpired_def example_db_fields)
  have pc: "pluginCache outage_db = Some (catalog example_db)"
    by (simp add: outage_db_def warm_db_eq)
  have tm: "cacheTimeMap outage_db cacheKeys_plugins = Some 5001"
    by (simp add: outage_db_def warm_db_eq)
  have ttl: "cacheTime outage_db = 1000"
    by (simp add: outage_db_def warm_db_eq example_db_fields)
  obtain s1 where s1: "getPluginListFromCache outage_db 7000 7001 = (Inl StoreError, s1)"
      "pluginCache s1 = pluginCache outage_db" "cacheTimeMap s1 = cacheTimeMap outage_db"
      "\<forall>snap st t2 u2.
              pluginCache outage_db = Some snap \<and> \<not> isCacheExpired s1 cacheKeys_plugins t2
              \<longrightarrow> getPluginListFromCache (s1\<lparr>db := st\<rparr>) t2 u2 = (Inr snap, s1\<lparr>db := st\<rparr>)"
    using refresh_failure_keeps_snapshot [of outage_db 7000 7001] dn ex by blast
  have ct: "cacheTime s1 = 1000"
    using s1(1) dn ex ttl by (auto simp: getPluginListFromCache_fail)
  have "\<not> isCacheExpired s1 cacheKeys_plugins 5500"
    using s1(3) tm ct by (simp add: isCacheExpired_def)
  then have "getPluginListFromCache (s1\<lparr>db := db s1\<rparr>) 5500 5501 = (Inr (catalog example_db), s1\<lparr>db := db s1\<rparr>)"
    using s1(4) pc by blast
  then show ?thesis
    using dn ex s1 pc tm by simp
qed

section \<open>The group cache\<close>

lemma mvcGroups_frame:
  "mvcGroups rows s = (ms, s1) \<Longrightarrow>
     db s1 = db s \<and> groupCache s1 = groupCache s \<and> pluginCache s1 = pluginCache s
     \<and> cacheTimeMap s1 = cacheTimeMap s \<and> cacheTime s1 = cacheTime s
     \<and> registeredPlugins s1 = registeredPlugins s
     \<and> registeredExternalPlugins s1 = registeredExternalPlugins s
     \<and> map group_id ms = map g_group_id rows"
proof (induction rows arbitrary: s ms s1)
  case Nil
  then show ?case by simp
next
  case (Cons g gs)
  then show ?case
    by (fastforce simp: alloc_def split: prod.splits)
qed

lemma set_entries_other:
  "k \<notin> group_id ` set ms \<Longrightarrow>
   groupCache (foldl (\<lambda>st g. st\<lparr>groupCache := (groupCache st)(group_id g \<mapsto> g)\<rparr>) s ms) k
     = groupCache s k"
  by (induction ms arbitrary: s) auto

lemma set_entries_frame:
  "cacheTimeMap (foldl (\<lambda>st g. st\<lparr>groupCache := (groupCache st)(group_id g \<mapsto> g)\<rparr>) s ms) = cacheTimeMap s
   \<and> db (foldl (\<lambda>st g. st\<lparr>groupCache := (groupCache st)(group_id g \<mapsto> g)\<rparr>) s ms) = db s
   \<and> cacheTime (foldl (\<lambda>st g. st\<lparr>groupCache := (groupCache st)(group_id g \<mapsto> g)\<rparr>) s ms) = cacheTime s"
  by (induction ms arbitrary: s) auto


lemma getGroupMapFromCache_hit:
  "groupCache s gid = Some g \<Longrightarrow> \<not> isCacheExpired s cacheKeys_groups t \<Longrightarrow>
   getGroupMapFromCache s gid t u = (Inr (Some g), s)"
  by (simp add: getGroupMapFromCache_def)

lemma example_lookup:
  "getGroupMapFromCache example_db 7 5000 5001 = (Inr (Some example_group), cached_group_db)"
proof -
  have "fst (getGroupMapFromCache example_db 7 5000 5001) = Inr (Some example_group)"
    by code_simp
  then show ?thesis
    unfolding cached_group_db_def by (metis prod.collapse)
qed

text \<open>
  C5. The claim: a lookup of an id that has no row in the store returns "not found" after a
  refresh, also when the group was cached before and has been deleted since. The refresh
  only sets entries, so the entry of a deleted group stays (lemma
  \<open>getGroupMapFromCache_refresh_absent\<close>: the result is whatever the cache held). Here
  group 7 is looked up and cached, its row is deleted, and a lookup after the TTL window,
  which refreshes from a store that has no group left, still returns the group.
\<close>

theorem deleted_group_still_found:
  "groupCache example_db 7 = None
   \<and> fst (getGroupMapFromCache example_db 7 5000 5001) = Inr (Some example_group)
   \<and> fst (deleteGroup cached_group_db 1) = Inr 1
   \<and> groups_table (db deleted_group_db) = []
   \<and> \<not> down (db deleted_group_db)
   \<and> isCacheExpired deleted_group_db cacheKeys_groups 9000
   \<and> fst (getGroupMapFromCache deleted_group_db 7 9000 9001) = Inr (Some example_group)"
  by (intro conjI; code_simp)



section \<open>Registration\<close>

lemma find_name_None: "find (\<lambda>r. p_name r = n) rows = None \<longleftrightarrow> n \<notin> p_name ` set rows"
  by (auto simp: find_None_iff)

lemma one_row_of_name:
  "distinct (map p_name rows) \<Longrightarrow> n \<in> p_name ` set rows \<Longrightarrow>
   length (filter (\<lambda>r. p_name r = n) rows) = 1"
proof (induction rows)
  case Nil
  then show ?case by simp
next
  case (Cons r rows)
  show ?case
  proof (cases "p_name r = n")
    case True
    with Cons.prems have "n \<notin> p_name ` set rows" by auto
    then have "filter (\<lambda>r. p_name r = n) rows = []"
      by (auto simp: filter_empty_conv)
    with True show ?thesis by simp
  next
    case False
    with Cons show ?thesis by auto
  qed
qed

lemma no_row_of_name:
  "n \<notin> p_name ` set rows \<Longrightarrow> filter (\<lambda>r. p_name r = n) rows = []"
  by (auto simp: filter_empty_conv)

lemma count_list_distinct:
  "distinct xs \<Longrightarrow> count_list xs n = (if n \<in> set xs then 1 else 0)"
  by (induction xs) auto

text \<open>What \<^verbatim>\<open>registerPlugin\<close> does to each part of the state, the store being up.\<close>

lemma registerPlugin_up:
  assumes "\<not> down (db s)"
  shows "fst (registerPlugin s n i e) = Inr ()"
    and "registeredPlugins (snd (registerPlugin s n i e)) =
           (if n \<in> set (registeredPlugins s) then registeredPlugins s else registeredPlugins s @ [n])"
    and "registeredExternalPlugins (snd (registerPlugin s n i e)) =
           (if e = Some True \<and> n \<notin> set (registeredExternalPlugins s)
            then registeredExternalPlugins s @ [n] else registeredExternalPlugins s)"
    and "n \<in> p_name ` set (plugins_table (db s)) \<Longrightarrow> db (snd (registerPlugin s n i e)) = db s"
    and "n \<notin> p_name ` set (plugins_table (db s)) \<Longrightarrow>
         plugins_table (db (snd (registerPlugin s n i e))) =
           plugins_table (db s) @
             [\<lparr>p_id = plugins_seq (db s) + 1, p_name = n, p_enabled = True,
               p_white_list_users = [], p_black_list_users = [],
               p_internal = (case i of None \<Rightarrow> False | Some b \<Rightarrow> b), p_threshold = 2\<rparr>]"
    and "down (db (snd (registerPlugin s n i e))) = down (db s)"
  using assms
  by (auto simp: registerPlugin_def Let_def find_name_None split: option.splits)

lemma registerPlugin_down:
  "down (db s) \<Longrightarrow> registerPlugin s n i e = (Inl StoreError, s)"
  by (simp add: registerPlugin_def Let_def)

lemma registerPlugin_invariant:
  assumes "distinct (map p_name (plugins_table (db s)))" "distinct (registeredPlugins s)"
  shows "distinct (map p_name (plugins_table (db (snd (registerPlugin s n i e)))))
         \<and> distinct (registeredPlugins (snd (registerPlugin s n i e)))"
proof (cases "down (db s)")
  case True
  then show ?thesis using assms by (simp add: registerPlugin_down)
next
  case False
  show ?thesis
  proof (cases "n \<in> p_name ` set (plugins_table (db s))")
    case True
    then show ?thesis using assms False by (simp add: registerPlugin_up)
  next
    case False
    then show ?thesis using assms \<open>\<not> down (db s)\<close> by (simp add: registerPlugin_up)
  qed
qed

text \<open>
  C6. \<^verbatim>\<open>registerPlugin\<close> is idempotent. In a state where the store is up, the names of
  table \<open>plugins\<close> are distinct (the column is unique) and the runtime list has no
  duplicate, two registrations of one name, with any flags, succeed and leave exactly one
  row of that name and the name once in \<open>registeredPlugins\<close>. The second registration
  leaves the store as the first left it, and a registration of a name that has a row
  leaves the store, so every field of that row, unchanged. Repeated with the same flags,
  the call changes nothing at all.
\<close>

theorem registerPlugin_idempotent:
  assumes "\<not> down (db s)"
    and "distinct (map p_name (plugins_table (db s)))"
    and "distinct (registeredPlugins s)"
    and "s1 = snd (registerPlugin s name i e)"
    and "s2 = snd (registerPlugin s1 name i' e')"
  shows "fst (registerPlugin s name i e) = Inr () \<and> fst (registerPlugin s1 name i' e') = Inr ()
     \<and> length (filter (\<lambda>r. p_name r = name) (plugins_table (db s2))) = 1
     \<and> count_list (registeredPlugins s2) name = 1
     \<and> db s2 = db s1
     \<and> (name \<in> p_name ` set (plugins_table (db s)) \<longrightarrow> db s1 = db s)
     \<and> registerPlugin s1 name i e = (Inr (), s1)"
proof -
  have up1: "\<not> down (db s1)"
    using assms(1,4) by (simp add: registerPlugin_up)
  have row1: "name \<in> p_name ` set (plugins_table (db s1))"
    using assms(1,4) by (cases "name \<in> p_name ` set (plugins_table (db s))") (simp_all add: registerPlugin_up)
  have inv1: "distinct (map p_name (plugins_table (db s1)))" "distinct (registeredPlugins s1)"
    using registerPlugin_invariant [OF assms(2,3)] assms(4) by simp_all
  have reg1: "name \<in> set (registeredPlugins s1)"
    using assms(1,4) by (simp add: registerPlugin_up)
  have db2: "db s2 = db s1"
    using up1 row1 assms(5) by (simp add: registerPlugin_up)
  have rp2: "registeredPlugins s2 = registeredPlugins s1"
    using up1 reg1 assms(5) by (simp add: registerPlugin_up)
  have one: "length (filter (\<lambda>r. p_name r = name) (plugins_table (db s2))) = 1"
    using db2 inv1(1) row1 by (simp add: one_row_of_name)
  have cnt: "count_list (registeredPlugins s2) name = 1"
    using rp2 inv1(2) reg1 by (simp add: count_list_distinct)
  have ext1: "e = Some True \<longrightarrow> name \<in> set (registeredExternalPlugins s1)"
    using assms(1,4) by (simp add: registerPlugin_up)
  have same: "registerPlugin s1 name i e = (Inr (), s1)"
    using up1 row1 reg1 ext1
    by (auto simp: registerPlugin_def Let_def find_name_None split: option.splits)
  show ?thesis
    using assms(1,4) up1 one cnt db2 same by (simp add: registerPlugin_up)
qed

theorem registerPlugin_idempotent_witness:
  "fst (registerPlugin fresh_db ''echo'' None None) = Inr ()
   \<and> length (filter (\<lambda>r. p_name r = ''echo'')
         (plugins_table (db (snd (registerPlugin (snd (registerPlugin fresh_db ''echo'' None None))
             ''echo'' (Some True) (Some True)))))) = 1
   \<and> count_list (registeredPlugins (snd (registerPlugin (snd (registerPlugin fresh_db ''echo'' None None))
             ''echo'' (Some True) (Some True)))) ''echo'' = 1
   \<and> db (snd (registerPlugin (snd (registerPlugin fresh_db ''echo'' None None))
             ''echo'' (Some True) (Some True)))
       = db (snd (registerPlugin fresh_db ''echo'' None None))"
proof -
  have up: "\<not> down (db fresh_db)"
    by (simp add: fresh_db_def new_database_def empty_store_def)
  have d1: "distinct (map p_name (plugins_table (db fresh_db)))"
    by (simp add: fresh_db_def new_database_def empty_store_def)
  have d2: "distinct (registeredPlugins fresh_db)"
    by (simp add: fresh_db_def new_database_def)
  show ?thesis
    using registerPlugin_idempotent [OF up d1 d2 refl refl, of "''echo''" None None "Some True" "Some True"]
    by blast
qed

lemma clearExternalPlugins_sets:
  "set (registeredPlugins (clearExternalPlugins s))
     = set (registeredPlugins s) - set (registeredExternalPlugins s)"
  "registeredExternalPlugins (clearExternalPlugins s) = []"
  "db (clearExternalPlugins s) = db s"
  by (auto simp: clearExternalPlugins_def)

lemma step_down: "down (db (step s c)) = down (db s)"
proof (cases c)
  case (Register n i e)
  then show ?thesis
    by (cases "down (db s)") (simp_all add: registerPlugin_up registerPlugin_down)
next
  case ClearExternal
  then show ?thesis by (simp add: clearExternalPlugins_sets)
qed

lemma run_snoc: "run s (cs @ [c]) = step (run s cs) c"
  by (simp add: run_def)

lemma run_down: "down (db (run s cs)) = down (db s)"
  by (induction cs rule: rev_induct) (simp_all add: run_def step_down)

lemma external_since_clear_snoc:
  "external_since_clear (cs @ [c]) =
     (case c of
        Register n i e \<Rightarrow>
          (if e = Some True then insert n (external_since_clear cs) else external_since_clear cs)
      | ClearExternal \<Rightarrow> {})"
  by (simp add: external_since_clear_def split: call.splits)

lemma run_external:
  assumes "\<not> down (db s)" "registeredExternalPlugins s = []"
  shows "set (registeredExternalPlugins (run s cs)) = external_since_clear cs"
proof (induction cs rule: rev_induct)
  case Nil
  then show ?case using assms by (simp add: run_def external_since_clear_def)
next
  case (snoc c cs)
  have up: "\<not> down (db (run s cs))" using assms(1) by (simp add: run_down)
  show ?case
  proof (cases c)
    case (Register n i e)
    then show ?thesis
      using snoc up by (auto simp: run_snoc external_since_clear_snoc registerPlugin_up)
  next
    case ClearExternal
    then show ?thesis
      by (simp add: run_snoc external_since_clear_snoc clearExternalPlugins_sets)
  qed
qed

lemma run_never_external:
  assumes "n \<notin> set (registeredExternalPlugins s)" "\<forall>c \<in> set cs. \<not> registers_external n c"
  shows "n \<notin> set (registeredExternalPlugins (run s cs))"
  using assms(2)
proof (induction cs rule: rev_induct)
  case Nil
  then show ?case using assms(1) by (simp add: run_def)
next
  case (snoc c cs)
  then have ih: "n \<notin> set (registeredExternalPlugins (run s cs))" by simp
  show ?case
  proof (cases c)
    case (Register m i e)
    with snoc.prems have "\<not> (m = n \<and> e = Some True)" by simp
    then show ?thesis
      using ih Register
      by (cases "down (db (run s cs))")
        (auto simp: run_snoc registerPlugin_up registerPlugin_down)
  next
    case ClearExternal
    then show ?thesis by (simp add: run_snoc clearExternalPlugins_sets)
  qed
qed

lemma run_stays_registered:
  assumes "\<not> down (db s)" "n \<notin> set (registeredExternalPlugins s)"
    and "\<forall>c \<in> set cs. \<not> registers_external n c"
    and "n \<in> set (registeredPlugins s) \<or> (\<exists>c \<in> set cs. registers n c)"
  shows "n \<in> set (registeredPlugins (run s cs))"
  using assms(3,4)
proof (induction cs rule: rev_induct)
  case Nil
  then show ?case by (simp add: run_def)
next
  case (snoc c cs)
  have up: "\<not> down (db (run s cs))" using assms(1) by (simp add: run_down)
  have ne: "n \<notin> set (registeredExternalPlugins (run s cs))"
    using run_never_external [OF assms(2)] snoc.prems(1) by simp
  show ?case
  proof (cases c)
    case (Register m i e)
    show ?thesis
    proof (cases "m = n")
      case True
      then show ?thesis using Register up by (simp add: run_snoc registerPlugin_up)
    next
      case False
      with snoc Register have "n \<in> set (registeredPlugins (run s cs))" by auto
      then show ?thesis using Register up by (simp add: run_snoc registerPlugin_up)
    qed
  next
    case ClearExternal
    with snoc have "n \<in> set (registeredPlugins (run s cs))" by auto
    then show ?thesis
      using ClearExternal ne by (simp add: run_snoc clearExternalPlugins_sets)
  qed
qed

text \<open>
  C7. \<^verbatim>\<open>clearExternalPlugins\<close> removes from the active names exactly the names of the
  external list and empties that list. After any history of registrations and clears
  from a state with an empty external list (the store being up), the external list holds
  exactly the names registered with \<open>external = true\<close> since the last clear, so these are
  the names a clear removes; and a name that the history registers, and never registers
  with \<open>external = true\<close>, is active after the clear.
\<close>

theorem clearExternalPlugins_exact:
  "set (registeredPlugins (clearExternalPlugins s))
     = set (registeredPlugins s) - set (registeredExternalPlugins s)
   \<and> registeredExternalPlugins (clearExternalPlugins s) = []
   \<and> (\<not> down (db s0) \<and> registeredExternalPlugins s0 = []
       \<longrightarrow> set (registeredExternalPlugins (run s0 cs)) = external_since_clear cs
          \<and> set (registeredPlugins (clearExternalPlugins (run s0 cs)))
              = set (registeredPlugins (run s0 cs)) - external_since_clear cs)
   \<and> (\<not> down (db s0) \<and> registeredExternalPlugins s0 = []
        \<and> (\<exists>c \<in> set cs. registers n c) \<and> (\<forall>c \<in> set cs. \<not> registers_external n c)
       \<longrightarrow> n \<in> set (registeredPlugins (clearExternalPlugins (run s0 cs))))"
proof (intro conjI impI)
  assume a: "\<not> down (db s0) \<and> registeredExternalPlugins s0 = []
        \<and> (\<exists>c \<in> set cs. registers n c) \<and> (\<forall>c \<in> set cs. \<not> registers_external n c)"
  then have "n \<in> set (registeredPlugins (run s0 cs))"
    using run_stays_registered [of s0 n cs] by simp
  moreover have "n \<notin> set (registeredExternalPlugins (run s0 cs))"
    using a run_never_external [of n s0 cs] by simp
  ultimately show "n \<in> set (registeredPlugins (clearExternalPlugins (run s0 cs)))"
    by (simp add: clearExternalPlugins_sets)
qed (simp_all add: clearExternalPlugins_sets run_external)

theorem clearExternalPlugins_exact_witness:
  "set (registeredPlugins (clearExternalPlugins
          (run fresh_db [Register ''core'' (Some True) None, Register ''py'' None (Some True)])))
     = {''core''}
   \<and> registeredExternalPlugins (clearExternalPlugins
          (run fresh_db [Register ''core'' (Some True) None, Register ''py'' None (Some True)])) = []
   \<and> set (registeredExternalPlugins
          (run fresh_db [Register ''core'' (Some True) None, Register ''py'' None (Some True)]))
     = {''py''}
   \<and> ''core'' \<in> set (registeredPlugins (clearExternalPlugins
          (run fresh_db [Register ''core'' (Some True) None, Register ''py'' None (Some True)])))"
proof -
  let ?cs = "[Register ''core'' (Some True) None, Register ''py'' None (Some True)]"
  have up: "\<not> down (db fresh_db)"
    by (simp add: fresh_db_def new_database_def empty_store_def)
  have ne: "registeredExternalPlugins fresh_db = []"
    by (simp add: fresh_db_def new_database_def)
  have r: "\<exists>c \<in> set ?cs. registers ''core'' c" by simp
  have nr: "\<forall>c \<in> set ?cs. \<not> registers_external ''core'' c" by simp
  have ext: "external_since_clear ?cs = {''py''}"
    by (simp add: external_since_clear_def)
  have reg: "set (registeredPlugins (run fresh_db ?cs)) = {''core'', ''py''}"
    by (simp add: run_def registerPlugin_up up fresh_db_def new_database_def empty_store_def)
  note t = clearExternalPlugins_exact [where s = "run fresh_db ?cs" and ?s0.0 = fresh_db
      and cs = ?cs and n = "''core''"]
  show ?thesis
    using t up ne r nr ext reg by auto
qed

section \<open>Permission resolution\<close>

lemma indexOf_bounds: "x \<in> set xs \<Longrightarrow> 0 \<le> indexOf xs x \<and> indexOf xs x < int (length xs)"
  by (induction xs) (auto simp: Let_def)

lemma indexOf_absent: "x \<notin> set xs \<Longrightarrow> indexOf xs x = - 1"
  by (induction xs) (auto simp: Let_def)

lemma splice1_indexOf: "x \<in> set xs \<Longrightarrow> splice1 xs (indexOf xs x) = remove1 x xs"
proof (induction xs)
  case Nil
  then show ?case by simp
next
  case (Cons y ys)
  show ?case
  proof (cases "y = x")
    case True
    then show ?thesis by (simp add: splice1_def)
  next
    case False
    with Cons.prems have m: "x \<in> set ys" by simp
    from indexOf_bounds [OF m] have b: "0 \<le> indexOf ys x" "indexOf ys x < int (length ys)"
      by simp_all
    have "splice1 ys (indexOf ys x) = remove1 x ys" using Cons.IH m by simp
    then have "take (nat (indexOf ys x)) ys @ drop (Suc (nat (indexOf ys x))) ys = remove1 x ys"
      using b by (simp add: splice1_def Let_def min_def)
    moreover have "nat (indexOf ys x + 1) = Suc (nat (indexOf ys x))"
      using b by simp
    ultimately show ?thesis
      using False b by (simp add: splice1_def Let_def min_def)
  qed
qed

lemma forEach_body_array:
  "forEach_body u r s p = s\<lparr>arrays := (arrays s)(r := override u (arrays s r) p)\<rparr>"
  by (auto simp: forEach_body_def override_def Let_def splice1_indexOf)

lemma forEach_array:
  "foldl (forEach_body u r) s ps = s\<lparr>arrays := (arrays s)(r := foldl (override u) (arrays s r) ps)\<rparr>"
proof (induction ps arbitrary: s)
  case Nil
  then show ?case by simp
next
  case (Cons p ps)
  show ?case
    unfolding foldl_Cons by (subst Cons.IH) (simp add: forEach_body_array)
qed


lemma getPluginListFromCache_frame:
  assumes "getPluginListFromCache s t u = (r, s1)"
  shows "arrays s1 = arrays s" "groupCache s1 = groupCache s" "cacheTime s1 = cacheTime s"
    "cacheTimeMap s1 cacheKeys_groups = cacheTimeMap s cacheKeys_groups"
    "registeredPlugins s1 = registeredPlugins s"
  using assms
  by (auto simp: getPluginListFromCache_def getPlugins_def updateCacheTimeMap_def Let_def
      cacheKeys_groups_def cacheKeys_plugins_def
      split: option.splits if_splits)

lemma getGroupMapFromCache_entry:
  assumes "getGroupMapFromCache s gid t u = (Inr (Some g), s1)"
  shows "groupCache s1 gid = Some g"
  using assms
  by (auto simp: getGroupMapFromCache_def getGroups_def updateCacheTimeMap_def Let_def
      split: option.splits if_splits prod.splits)

lemma getAvailablePlugins_found:
  assumes "getGroupMapFromCache s gid tg ug = (Inr (Some g), s1)"
    and "getPluginListFromCache s1 tp up = (Inr ps, s2)"
  shows "getAvailablePlugins s gid None tg ug tp up
           = (Inr (plugin_names ps (arrays s2 (plugins g))), s2)"
    and "getAvailablePlugins s gid (Some 0) tg ug tp up
           = (Inr (plugin_names ps (arrays s2 (plugins g))), s2)"
    and "u \<noteq> 0 \<Longrightarrow> getAvailablePlugins s gid (Some u) tg ug tp up
           = (Inr (plugin_names ps (foldl (override u) (arrays s2 (plugins g)) ps)),
              s2\<lparr>arrays := (arrays s2)(plugins g := foldl (override u) (arrays s2 (plugins g)) ps)\<rparr>)"
  using assms
  by (simp_all add: getAvailablePlugins_def plugin_names_def forEach_array Let_def)

lemma pluginMap_absent:
  "i \<notin> plugin_id ` set ps \<Longrightarrow>
   foldl (\<lambda>acc cur. acc(plugin_id cur \<mapsto> cur)) m ps i = m i"
  by (induction ps arbitrary: m) auto

lemma pluginMap_present:
  "distinct (map plugin_id ps) \<Longrightarrow> p \<in> set ps \<Longrightarrow>
   foldl (\<lambda>acc cur. acc(plugin_id cur \<mapsto> cur)) m ps (plugin_id p) = Some p"
proof (induction ps arbitrary: m)
  case Nil
  then show ?case by simp
next
  case (Cons q ps)
  show ?case
  proof (cases "p = q")
    case True
    with Cons.prems have "plugin_id q \<notin> plugin_id ` set ps" by auto
    then have "foldl (\<lambda>acc cur. acc(plugin_id cur \<mapsto> cur)) (m(plugin_id q \<mapsto> q)) ps (plugin_id q)
        = (m(plugin_id q \<mapsto> q)) (plugin_id q)"
      by (rule pluginMap_absent)
    also have "\<dots> = Some q" by simp
    finally show ?thesis using True by (simp only: foldl_Cons)
  next
    case False
    with Cons show ?thesis by auto
  qed
qed

text \<open>
  The loop on the grants 1, 2 for a user whom plugin 2 blacklists, plugin 3 whitelists, and
  no plugin outside 1, 2, 3 whitelists, in whatever order the catalog lists the plugins:
  \<open>has2\<close> and \<open>has3\<close> say whether the array still holds 2 and already holds 3.
\<close>

lemma override_loop:
  assumes "distinct (map plugin_id ps)"
    and "\<forall>p \<in> set ps. (plugin_id p = 1 \<longrightarrow> u \<notin> set (black_list_users p))
           \<and> (plugin_id p = 2 \<longrightarrow> u \<in> set (black_list_users p))
           \<and> (plugin_id p = 3 \<longrightarrow> u \<in> set (white_list_users p) \<and> u \<notin> set (black_list_users p))
           \<and> (u \<in> set (white_list_users p) \<longrightarrow> plugin_id p \<in> {1, 2, 3})"
    and "has2 \<or> 2 \<notin> plugin_id ` set ps"
    and "has3 \<longrightarrow> 3 \<notin> plugin_id ` set ps"
  shows "foldl (override u) ([1] @ (if has2 then [2] else []) @ (if has3 then [3] else [])) ps
         = [1] @ (if has2 \<and> 2 \<notin> plugin_id ` set ps then [2] else [])
               @ (if has3 \<or> 3 \<in> plugin_id ` set ps then [3] else [])"
  using assms
proof (induction ps arbitrary: has2 has3)
  case Nil
  then show ?case by simp
next
  case (Cons p ps)
  have d: "distinct (map plugin_id ps)" "plugin_id p \<notin> plugin_id ` set ps"
    using Cons.prems(1) by auto
  have c: "\<forall>p \<in> set ps. (plugin_id p = 1 \<longrightarrow> u \<notin> set (black_list_users p))
           \<and> (plugin_id p = 2 \<longrightarrow> u \<in> set (black_list_users p))
           \<and> (plugin_id p = 3 \<longrightarrow> u \<in> set (white_list_users p) \<and> u \<notin> set (black_list_users p))
           \<and> (u \<in> set (white_list_users p) \<longrightarrow> plugin_id p \<in> {1, 2, 3})"
    using Cons.prems(2) by simp
  have cp: "(plugin_id p = 1 \<longrightarrow> u \<notin> set (black_list_users p))"
    "(plugin_id p = 2 \<longrightarrow> u \<in> set (black_list_users p))"
    "(plugin_id p = 3 \<longrightarrow> u \<in> set (white_list_users p) \<and> u \<notin> set (black_list_users p))"
    "(u \<in> set (white_list_users p) \<longrightarrow> plugin_id p \<in> {1, 2, 3})"
    using Cons.prems(2) by simp_all
  consider (one) "plugin_id p = 1" | (two) "plugin_id p = 2" | (three) "plugin_id p = 3"
    | (other) "plugin_id p \<notin> {1, 2, 3}" by auto
  then show ?case
  proof cases
    case one
    then have step: "override u ([1] @ (if has2 then [2] else []) @ (if has3 then [3] else [])) p
        = [1] @ (if has2 then [2] else []) @ (if has3 then [3] else [])"
      using cp by (simp add: override_def)
    have "foldl (override u) ([1] @ (if has2 then [2] else []) @ (if has3 then [3] else [])) ps
         = [1] @ (if has2 \<and> 2 \<notin> plugin_id ` set ps then [2] else [])
               @ (if has3 \<or> 3 \<in> plugin_id ` set ps then [3] else [])"
      using Cons.prems(3,4) one by (intro Cons.IH d c) auto
    then show ?thesis using step one by simp
  next
    case two
    then have h2: "has2" using Cons.prems(3) by auto
    have step: "override u ([1] @ (if has2 then [2] else []) @ (if has3 then [3] else [])) p
        = [1] @ (if False then [2] else []) @ (if has3 then [3] else [])"
      using cp two h2 by (simp add: override_def)
    have "foldl (override u) ([1] @ (if False then [2] else []) @ (if has3 then [3] else [])) ps
         = [1] @ (if False \<and> 2 \<notin> plugin_id ` set ps then [2] else [])
               @ (if has3 \<or> 3 \<in> plugin_id ` set ps then [3] else [])"
      using Cons.prems(4) two d(2) by (intro Cons.IH d c) auto
    then show ?thesis using step two by simp
  next
    case three
    then have h3: "\<not> has3" using Cons.prems(4) by auto
    have step: "override u ([1] @ (if has2 then [2] else []) @ (if has3 then [3] else [])) p
        = [1] @ (if has2 then [2] else []) @ (if True then [3] else [])"
      using cp three h3 by (simp add: override_def)
    have "foldl (override u) ([1] @ (if has2 then [2] else []) @ (if True then [3] else [])) ps
         = [1] @ (if has2 \<and> 2 \<notin> plugin_id ` set ps then [2] else [])
               @ (if True \<or> 3 \<in> plugin_id ` set ps then [3] else [])"
      using Cons.prems(3) three d(2) by (intro Cons.IH d c) auto
    then show ?thesis using step three by simp
  next
    case other
    then have step: "override u ([1] @ (if has2 then [2] else []) @ (if has3 then [3] else [])) p
        = [1] @ (if has2 then [2] else []) @ (if has3 then [3] else [])"
      using cp by (auto simp: override_def)
    have "foldl (override u) ([1] @ (if has2 then [2] else []) @ (if has3 then [3] else [])) ps
         = [1] @ (if has2 \<and> 2 \<notin> plugin_id ` set ps then [2] else [])
               @ (if has3 \<or> 3 \<in> plugin_id ` set ps then [3] else [])"
      using Cons.prems(3,4) other by (intro Cons.IH d c) auto
    then show ?thesis using step other by auto
  qed
qed


lemma isCacheExpired_arrays_update [simp]:
  "isCacheExpired (s\<lparr>arrays := a\<rparr>) key now = isCacheExpired s key now"
  by (simp add: isCacheExpired_def split: option.splits)

lemma same_id_same_plugin:
  "distinct (map plugin_id ps) \<Longrightarrow> p \<in> set ps \<Longrightarrow> q \<in> set ps \<Longrightarrow>
   plugin_id p = plugin_id q \<Longrightarrow> p = q"
  by (auto simp: distinct_map dest: inj_onD)

lemma example_catalog_read:
  "getPluginListFromCache cached_group_db 5002 5003 = (Inr example_catalog, resolved_db)"
proof -
  have "fst (getPluginListFromCache cached_group_db 5002 5003) = Inr example_catalog"
    by code_simp
  then show ?thesis
    unfolding resolved_db_def by (metis prod.collapse)
qed

text \<open>The resolution of the example of the spec, from what the two cache reads deliver.\<close>

lemma resolution_from_lookup:
  assumes lookup: "getGroupMapFromCache s groupId tg ug = (Inr (Some g), s1)"
    and grants: "arrays s1 (plugins g) = [1, 2]"
    and cat: "getPluginListFromCache s1 tp up = (Inr ps, s2)"
    and ids: "distinct (map plugin_id ps)"
    and mem: "p1 \<in> set ps" "p2 \<in> set ps" "p3 \<in> set ps"
    and pid: "plugin_id p1 = 1" "plugin_id p2 = 2" "plugin_id p3 = 3"
    and wl: "42 \<in> set (white_list_users p3)"
    and bl: "42 \<in> set (black_list_users p2)"
    and nb: "42 \<notin> set (black_list_users p1)" "42 \<notin> set (black_list_users p3)"
    and others: "\<forall>p \<in> set ps. 42 \<in> set (white_list_users p) \<longrightarrow> plugin_id p \<in> {1, 2, 3}"
    and names: "plugin_name p1 \<noteq> []" "plugin_name p2 \<noteq> []" "plugin_name p3 \<noteq> []"
  shows "getAvailablePlugins s groupId (Some 42) tg ug tp up
           = (Inr [plugin_name p1, plugin_name p3], s2\<lparr>arrays := (arrays s2)(plugins g := [1, 3])\<rparr>)
       \<and> getAvailablePlugins s groupId None tg ug tp up
           = (Inr [plugin_name p1, plugin_name p2], s2)"
proof -
  have a2: "arrays s2 (plugins g) = [1, 2]"
    using getPluginListFromCache_frame(1) [OF cat] grants by simp
  have m1: "foldl (\<lambda>acc cur. acc(plugin_id cur \<mapsto> cur)) Map.empty ps 1 = Some p1"
    using pluginMap_present [OF ids mem(1)] pid(1) by simp
  have m2: "foldl (\<lambda>acc cur. acc(plugin_id cur \<mapsto> cur)) Map.empty ps 2 = Some p2"
    using pluginMap_present [OF ids mem(2)] pid(2) by simp
  have m3: "foldl (\<lambda>acc cur. acc(plugin_id cur \<mapsto> cur)) Map.empty ps 3 = Some p3"
    using pluginMap_present [OF ids mem(3)] pid(3) by simp
  have cond: "\<forall>p \<in> set ps. (plugin_id p = 1 \<longrightarrow> 42 \<notin> set (black_list_users p))
           \<and> (plugin_id p = 2 \<longrightarrow> 42 \<in> set (black_list_users p))
           \<and> (plugin_id p = 3 \<longrightarrow> 42 \<in> set (white_list_users p) \<and> 42 \<notin> set (black_list_users p))
           \<and> (42 \<in> set (white_list_users p) \<longrightarrow> plugin_id p \<in> {1, 2, 3})"
  proof
    fix p assume p: "p \<in> set ps"
    have "plugin_id p = 1 \<Longrightarrow> p = p1" using same_id_same_plugin [OF ids p mem(1)] pid(1) by simp
    moreover have "plugin_id p = 2 \<Longrightarrow> p = p2" using same_id_same_plugin [OF ids p mem(2)] pid(2) by simp
    moreover have "plugin_id p = 3 \<Longrightarrow> p = p3" using same_id_same_plugin [OF ids p mem(3)] pid(3) by simp
    ultimately show "(plugin_id p = 1 \<longrightarrow> 42 \<notin> set (black_list_users p))
           \<and> (plugin_id p = 2 \<longrightarrow> 42 \<in> set (black_list_users p))
           \<and> (plugin_id p = 3 \<longrightarrow> 42 \<in> set (white_list_users p) \<and> 42 \<notin> set (black_list_users p))
           \<and> (42 \<in> set (white_list_users p) \<longrightarrow> plugin_id p \<in> {1, 2, 3})"
      using wl bl nb others p by blast
  qed
  have in2: "2 \<in> plugin_id ` set ps" using mem(2) pid(2) by force
  have in3: "3 \<in> plugin_id ` set ps" using mem(3) pid(3) by force
  have "foldl (override 42) ([1] @ (if True then [2] else []) @ (if False then [3] else [])) ps
         = [1] @ (if True \<and> 2 \<notin> plugin_id ` set ps then [2] else [])
               @ (if False \<or> 3 \<in> plugin_id ` set ps then [3] else [])"
    by (rule override_loop [OF ids cond]) simp_all
  then have loop: "foldl (override 42) [1, 2] ps = [1, 3]"
    using in2 in3 by simp
  have n13: "plugin_names ps [1, 3] = [plugin_name p1, plugin_name p3]"
    using names by (simp add: plugin_names_def m1 m3)
  have n12: "plugin_names ps [1, 2] = [plugin_name p1, plugin_name p2]"
    using names by (simp add: plugin_names_def m1 m2)
  show ?thesis
    using getAvailablePlugins_found(1) [OF lookup cat]
      getAvailablePlugins_found(3) [OF lookup cat, of 42]
    by (simp add: a2 loop n13 n12)
qed

lemma mvcGroups_heap:
  "mvcGroups rows s = (ms, s1) \<Longrightarrow>
     next_ref s1 = next_ref s + length rows
     \<and> (\<forall>k < next_ref s. arrays s1 k = arrays s k)
     \<and> ms = map (\<lambda>(r, i). mvcGroup_of r (next_ref s + i)) (zip rows [0 ..< length rows])
     \<and> (\<forall>i < length rows. arrays s1 (next_ref s + i) = toArrayNumber (g_plugins (rows ! i)))"
proof (induction rows arbitrary: s ms s1)
  case Nil
  then show ?case by simp
next
  case (Cons r rows)
  let ?s' = "s\<lparr>arrays := (arrays s)(next_ref s := toArrayNumber (g_plugins r)),
               next_ref := Suc (next_ref s)\<rparr>"
  obtain ms' where rest: "mvcGroups rows ?s' = (ms', s1)"
    and ms: "ms = mvcGroup_of r (next_ref s) # ms'"
    using Cons.prems by (auto simp: alloc_def mvcGroup_of_def split: prod.splits)
  note ih = Cons.IH [OF rest]
  have nr: "next_ref s1 = next_ref s + length (r # rows)" using ih by simp
  have old: "\<forall>k < next_ref s. arrays s1 k = arrays s k" using ih by simp
  have first: "arrays s1 (next_ref s) = toArrayNumber (g_plugins r)" using ih by simp
  have later: "\<forall>i < length rows. arrays s1 (next_ref s + Suc i) = toArrayNumber (g_plugins (rows ! i))"
    using ih by simp
  have cells: "\<forall>i < length (r # rows). arrays s1 (next_ref s + i) = toArrayNumber (g_plugins ((r # rows) ! i))"
  proof (intro allI impI)
    fix i assume "i < length (r # rows)"
    then show "arrays s1 (next_ref s + i) = toArrayNumber (g_plugins ((r # rows) ! i))"
      using first later by (cases i) simp_all
  qed
  have "ms' = map (\<lambda>(r, i). mvcGroup_of r (next_ref s + Suc i)) (zip rows [0 ..< length rows])"
    using ih by simp
  also have "\<dots> = map (\<lambda>(r, i). mvcGroup_of r (next_ref s + i)) (zip rows [Suc 0 ..< Suc (length rows)])"
    unfolding map_Suc_upt [symmetric] zip_map2 by (simp add: case_prod_beta)
  finally have "ms = map (\<lambda>(r, i). mvcGroup_of r (next_ref s + i)) (zip (r # rows) [0 ..< length (r # rows)])"
    using ms by (simp add: upt_conv_Cons del: upt_Suc)
  then show ?case using nr old cells by blast
qed


lemma set_entries_present:
  "distinct (map group_id ms) \<Longrightarrow> m \<in> set ms \<Longrightarrow>
   groupCache (foldl (\<lambda>st g. st\<lparr>groupCache := (groupCache st)(group_id g \<mapsto> g)\<rparr>) s ms) (group_id m)
     = Some m"
proof (induction ms arbitrary: s)
  case Nil
  then show ?case by simp
next
  case (Cons q ms)
  show ?case
  proof (cases "m = q")
    case True
    with Cons.prems have "group_id q \<notin> group_id ` set ms" by auto
    then have "groupCache (foldl (\<lambda>st g. st\<lparr>groupCache := (groupCache st)(group_id g \<mapsto> g)\<rparr>)
          (s\<lparr>groupCache := (groupCache s)(group_id q \<mapsto> q)\<rparr>) ms) (group_id q)
        = groupCache (s\<lparr>groupCache := (groupCache s)(group_id q \<mapsto> q)\<rparr>) (group_id q)"
      by (rule set_entries_other)
    also have "\<dots> = Some q" by simp
    finally show ?thesis using True by (simp only: foldl_Cons)
  next
    case False
    with Cons show ?thesis by auto
  qed
qed

lemma set_entries_arrays:
  "arrays (foldl (\<lambda>st g. st\<lparr>groupCache := (groupCache st)(group_id g \<mapsto> g)\<rparr>) s ms) = arrays s"
  by (induction ms arbitrary: s) auto

text \<open>
  A lookup that refreshes, for a group that has a row in the store (the column
  \<open>group_id\<close> being unique): the result is the row as a group object, and its \<open>plugins\<close>
  array holds the parsed column.
\<close>

lemma getGroupMapFromCache_reads_store:
  assumes miss: "isCacheExpired s cacheKeys_groups t \<or> groupCache s gid = None"
    and up: "\<not> down (db s)"
    and uniq: "distinct (map g_group_id (groups_table (db s)))"
    and row: "r \<in> set (groups_table (db s))" "g_group_id r = gid"
  shows "\<exists>k s1. getGroupMapFromCache s gid t u = (Inr (Some (mvcGroup_of r k)), s1)
           \<and> arrays s1 k = toArrayNumber (g_plugins r)"
proof -
  let ?rows = "groups_table (db s)"
  obtain ms s1 where m: "mvcGroups ?rows s = (ms, s1)"
    by (cases "mvcGroups ?rows s")
  note h = mvcGroups_heap [OF m]
  note f = mvcGroups_frame [OF m]
  obtain i where i: "i < length ?rows" "?rows ! i = r"
    using row(1) by (auto simp: in_set_conv_nth)
  let ?k = "next_ref s + i"
  have msi: "ms ! i = mvcGroup_of r ?k"
    using h i by simp
  have len: "length ms = length ?rows" using h by simp
  then have mem: "mvcGroup_of r ?k \<in> set ms"
    using msi i(1) by (metis nth_mem)
  have d: "distinct (map group_id ms)" using f uniq by simp
  have gid: "group_id (mvcGroup_of r ?k) = gid"
    using row(2) by (simp add: mvcGroup_of_def)
  let ?s2 = "foldl (\<lambda>st g. st\<lparr>groupCache := (groupCache st)(group_id g \<mapsto> g)\<rparr>) s1 ms"
  have entry: "groupCache ?s2 gid = Some (mvcGroup_of r ?k)"
    using set_entries_present [OF d mem, of s1] gid by simp
  have arr: "arrays ?s2 ?k = toArrayNumber (g_plugins r)"
    using h i by (simp add: set_entries_arrays)
  have "getGroupMapFromCache s gid t u
          = (Inr (Some (mvcGroup_of r ?k)), updateCacheTimeMap ?s2 cacheKeys_groups u)"
    using miss up m entry
    by (auto simp: getGroupMapFromCache_def getGroups_def updateCacheTimeMap_def Let_def
        split: option.splits)
  moreover have "arrays (updateCacheTimeMap ?s2 cacheKeys_groups u) ?k = toArrayNumber (g_plugins r)"
    using arr by (simp add: updateCacheTimeMap_def)
  ultimately show ?thesis by blast
qed


lemma getGroupMapFromCache_frame:
  assumes "getGroupMapFromCache s gid t u = (res, s1)"
  shows "db s1 = db s" "pluginCache s1 = pluginCache s" "cacheTime s1 = cacheTime s"
    "registeredPlugins s1 = registeredPlugins s"
    "cacheTimeMap s1 cacheKeys_plugins = cacheTimeMap s cacheKeys_plugins"
proof -
  obtain ms s' where m: "mvcGroups (groups_table (db s)) s = (ms, s')"
    by (cases "mvcGroups (groups_table (db s)) s")
  note f = mvcGroups_frame [OF m]
  let ?s2 = "foldl (\<lambda>st g. st\<lparr>groupCache := (groupCache st)(group_id g \<mapsto> g)\<rparr>) s' ms"
  have e: "db ?s2 = db s'" "cacheTime ?s2 = cacheTime s'" "cacheTimeMap ?s2 = cacheTimeMap s'"
    using set_entries_frame [of s' ms] by simp_all
  have p: "pluginCache ?s2 = pluginCache s'" "registeredPlugins ?s2 = registeredPlugins s'"
    by (induction ms arbitrary: s') auto
  have "s1 = s \<or> s1 = updateCacheTimeMap ?s2 cacheKeys_groups u"
    using assms m
    by (auto simp: getGroupMapFromCache_def getGroups_def Let_def split: option.splits if_splits)
  then show "db s1 = db s" "pluginCache s1 = pluginCache s" "cacheTime s1 = cacheTime s"
    "registeredPlugins s1 = registeredPlugins s"
    "cacheTimeMap s1 cacheKeys_plugins = cacheTimeMap s cacheKeys_plugins"
    using f e p
    by (auto simp: updateCacheTimeMap_def cacheKeys_groups_def cacheKeys_plugins_def)
qed

lemma getPluginListFromCache_depends:
  assumes "db s1 = db s" "pluginCache s1 = pluginCache s" "cacheTime s1 = cacheTime s"
    "registeredPlugins s1 = registeredPlugins s"
    "cacheTimeMap s1 cacheKeys_plugins = cacheTimeMap s cacheKeys_plugins"
  shows "fst (getPluginListFromCache s1 t u) = fst (getPluginListFromCache s t u)"
  using assms
  by (auto simp: getPluginListFromCache_def getPlugins_def isCacheExpired_def Let_def
      split: option.splits)

lemma resolution_from_store:
  assumes up: "\<not> down (db s)"
    and uniq: "distinct (map g_group_id (groups_table (db s)))"
    and row: "r \<in> set (groups_table (db s))" "g_group_id r = groupId"
    and grants: "toArrayNumber (g_plugins r) = [1, 2]"
    and miss: "isCacheExpired s cacheKeys_groups tg \<or> groupCache s groupId = None"
    and cat: "fst (getPluginListFromCache s tp up) = Inr ps"
    and ids: "distinct (map plugin_id ps)"
    and mem: "p1 \<in> set ps" "p2 \<in> set ps" "p3 \<in> set ps"
    and pid: "plugin_id p1 = 1" "plugin_id p2 = 2" "plugin_id p3 = 3"
    and wl: "42 \<in> set (white_list_users p3)"
    and bl: "42 \<in> set (black_list_users p2)"
    and nb: "42 \<notin> set (black_list_users p1)" "42 \<notin> set (black_list_users p3)"
    and others: "\<forall>p \<in> set ps. 42 \<in> set (white_list_users p) \<longrightarrow> plugin_id p \<in> {1, 2, 3}"
    and names: "plugin_name p1 \<noteq> []" "plugin_name p2 \<noteq> []" "plugin_name p3 \<noteq> []"
  shows "fst (getAvailablePlugins s groupId (Some 42) tg ug tp up) = Inr [plugin_name p1, plugin_name p3]
       \<and> fst (getAvailablePlugins s groupId None tg ug tp up) = Inr [plugin_name p1, plugin_name p2]"
proof -
  obtain k s1 where look: "getGroupMapFromCache s groupId tg ug = (Inr (Some (mvcGroup_of r k)), s1)"
    and arr: "arrays s1 k = toArrayNumber (g_plugins r)"
    using getGroupMapFromCache_reads_store [OF miss up uniq row] by blast
  have g: "arrays s1 (plugins (mvcGroup_of r k)) = [1, 2]"
    using arr grants by (simp add: mvcGroup_of_def)
  note f = getGroupMapFromCache_frame [OF look]
  have "fst (getPluginListFromCache s1 tp up) = Inr ps"
    using getPluginListFromCache_depends [OF f] cat by simp
  then obtain s2 where c: "getPluginListFromCache s1 tp up = (Inr ps, s2)"
    by (cases "getPluginListFromCache s1 tp up") simp
  show ?thesis
    using resolution_from_lookup [OF look g c ids mem pid wl bl nb others names]
    by simp
qed

text \<open>
  Whitelist and blacklist resolution from a state whose cache agrees with the store. The
  catalog that the call reads lists each id once and holds plugin 1, plugin 2 with user
  42 on its blacklist and plugin 3 with user 42 on its whitelist, in any order and among
  any other plugins; user 42 is on no other blacklist of the three and on no whitelist
  outside them; the three names are not empty (\<^verbatim>\<open>filter(Boolean)\<close> drops an empty name).
  First conjunct: for a group persisted with the grants 1, 2 that the call reads from the
  store (the groups key is expired or the group is not cached; the store is up and its
  \<open>group_id\<close> column unique), \<^verbatim>\<open>getAvailablePlugins\<close> for user 42 returns the names of
  plugins 1 and 3, and without a user the names of plugins 1 and 2. Second conjunct: the
  same results, with the state each call leaves, whenever the lookup delivers a group
  whose array of grants is 1, 2.
\<close>

lemma resolution_when_cache_agrees:
  assumes ids: "distinct (map plugin_id ps)"
    and mem: "p1 \<in> set ps" "p2 \<in> set ps" "p3 \<in> set ps"
    and pid: "plugin_id p1 = 1" "plugin_id p2 = 2" "plugin_id p3 = 3"
    and wl: "42 \<in> set (white_list_users p3)"
    and bl: "42 \<in> set (black_list_users p2)"
    and nb: "42 \<notin> set (black_list_users p1)" "42 \<notin> set (black_list_users p3)"
    and others: "\<forall>p \<in> set ps. 42 \<in> set (white_list_users p) \<longrightarrow> plugin_id p \<in> {1, 2, 3}"
    and names: "plugin_name p1 \<noteq> []" "plugin_name p2 \<noteq> []" "plugin_name p3 \<noteq> []"
  shows "(\<not> down (db s) \<and> distinct (map g_group_id (groups_table (db s)))
          \<and> r \<in> set (groups_table (db s)) \<and> g_group_id r = groupId
          \<and> toArrayNumber (g_plugins r) = [1, 2]
          \<and> (isCacheExpired s cacheKeys_groups tg \<or> groupCache s groupId = None)
          \<and> fst (getPluginListFromCache s tp up) = Inr ps
        \<longrightarrow> fst (getAvailablePlugins s groupId (Some 42) tg ug tp up)
              = Inr [plugin_name p1, plugin_name p3]
            \<and> fst (getAvailablePlugins s groupId None tg ug tp up)
              = Inr [plugin_name p1, plugin_name p2])
       \<and> (getGroupMapFromCache s groupId tg ug = (Inr (Some g), s1)
          \<and> arrays s1 (plugins g) = [1, 2]
          \<and> getPluginListFromCache s1 tp up = (Inr ps, s2)
        \<longrightarrow> getAvailablePlugins s groupId (Some 42) tg ug tp up
              = (Inr [plugin_name p1, plugin_name p3],
                 s2\<lparr>arrays := (arrays s2)(plugins g := [1, 3])\<rparr>)
            \<and> getAvailablePlugins s groupId None tg ug tp up
              = (Inr [plugin_name p1, plugin_name p2], s2))"
proof -
  have store: "fst (getAvailablePlugins s groupId (Some 42) tg ug tp up)
              = Inr [plugin_name p1, plugin_name p3]
            \<and> fst (getAvailablePlugins s groupId None tg ug tp up)
              = Inr [plugin_name p1, plugin_name p2]"
    if up: "\<not> down (db s)"
      and uq: "distinct (map g_group_id (groups_table (db s)))"
      and row: "r \<in> set (groups_table (db s))" "g_group_id r = groupId"
      and gr: "toArrayNumber (g_plugins r) = [1, 2]"
      and miss: "isCacheExpired s cacheKeys_groups tg \<or> groupCache s groupId = None"
      and cat: "fst (getPluginListFromCache s tp up) = Inr ps"
    by (rule resolution_from_store [OF up uq row gr miss cat ids mem pid wl bl nb others names])
  have lookup: "getAvailablePlugins s groupId (Some 42) tg ug tp up
              = (Inr [plugin_name p1, plugin_name p3],
                 s2\<lparr>arrays := (arrays s2)(plugins g := [1, 3])\<rparr>)
            \<and> getAvailablePlugins s groupId None tg ug tp up
              = (Inr [plugin_name p1, plugin_name p2], s2)"
    if l: "getGroupMapFromCache s groupId tg ug = (Inr (Some g), s1)"
      and g: "arrays s1 (plugins g) = [1, 2]"
      and c: "getPluginListFromCache s1 tp up = (Inr ps, s2)"
    by (rule resolution_from_lookup [OF l g c ids mem pid wl bl nb others names])
  show ?thesis
    using store lookup by blast
qed

lemma resolution_example:
  "fst (getAvailablePlugins example_db 7 (Some 42) 5000 5001 5002 5003) = Inr [''a'', ''c'']
   \<and> fst (getAvailablePlugins example_db 7 None 5000 5001 5002 5003) = Inr [''a'', ''b'']"
proof -
  let ?row = "\<lparr>g_id = 1, g_name = ''g'', g_group_id = 7, g_admins = ''5'',
          g_expired_at = ''2030-01-01'', g_plugins = ''1,2''\<rparr>"
  have store: "\<not> down (db example_db)" "distinct (map g_group_id (groups_table (db example_db)))"
    "?row \<in> set (groups_table (db example_db))"
    by (simp_all add: example_db_fields example_store_def)
  have grants: "toArrayNumber (g_plugins ?row) = [1, 2]"
    by code_simp
  have miss: "groupCache example_db 7 = None"
    by (simp add: example_db_def new_database_def)
  have cat: "fst (getPluginListFromCache example_db 5002 5003) = Inr example_catalog"
    by code_simp
  note t = resolution_when_cache_agrees [where ps = example_catalog
      and ?p1.0 = "example_catalog ! 0" and ?p2.0 = "example_catalog ! 1"
      and ?p3.0 = "example_catalog ! 2" and s = example_db and r = ?row and groupId = 7
      and tg = 5000 and ug = 5001 and tp = 5002 and up = 5003]
  have "(\<not> down (db example_db) \<and> distinct (map g_group_id (groups_table (db example_db)))
          \<and> ?row \<in> set (groups_table (db example_db)) \<and> g_group_id ?row = 7
          \<and> toArrayNumber (g_plugins ?row) = [1, 2]
          \<and> (isCacheExpired example_db cacheKeys_groups 5000 \<or> groupCache example_db 7 = None)
          \<and> fst (getPluginListFromCache example_db 5002 5003) = Inr example_catalog
        \<longrightarrow> fst (getAvailablePlugins example_db 7 (Some 42) 5000 5001 5002 5003)
              = Inr [plugin_name (example_catalog ! 0), plugin_name (example_catalog ! 2)]
            \<and> fst (getAvailablePlugins example_db 7 None 5000 5001 5002 5003)
              = Inr [plugin_name (example_catalog ! 0), plugin_name (example_catalog ! 1)])"
    by (rule t [THEN conjunct1]) (simp_all add: example_catalog_def)
  then show ?thesis
    using store grants miss cat by (simp add: example_catalog_def)
qed

text \<open>
  C1. The claim: for a group whose persisted grants are 1, 2, with user 42 on the blacklist
  of plugin 2 and on the whitelist of plugin 3, \<^verbatim>\<open>getAvailablePlugins\<close> returns the names of
  plugins 1, 3 for user 42 and the names of plugins 1, 2 without a user. From the example
  store each of the two calls, made first, returns what the claim says. Made in the
  order of the claim they do not: the call for user 42 has rewritten the array of the
  cached group, the row of the group still holds \<open>'1,2'\<close>, and the call without a user,
  inside the cache window, returns the names of plugins 1, 3.
\<close>

theorem no_user_call_after_user_call:
  "fst (getAvailablePlugins example_db 7 (Some 42) 5000 5001 5002 5003) = Inr [''a'', ''c'']
   \<and> fst (getAvailablePlugins example_db 7 None 5000 5001 5002 5003) = Inr [''a'', ''b'']
   \<and> map g_plugins (groups_table (db personalised_db)) = [''1,2'']
   \<and> toArrayNumber ''1,2'' = [1, 2]
   \<and> map (\<lambda>p. (plugin_id p, white_list_users p, black_list_users p)) (catalog personalised_db)
       = [(1, [], []), (2, [], [42]), (3, [42], [])]
   \<and> \<not> isCacheExpired personalised_db cacheKeys_groups 5004
   \<and> \<not> isCacheExpired personalised_db cacheKeys_plugins 5006
   \<and> fst (getAvailablePlugins personalised_db 7 None 5004 5005 5006 5007) = Inr [''a'', ''c'']"
  by (intro conjI; code_simp)

text \<open>
  C2. With a user id (not 0), \<^verbatim>\<open>getAvailablePlugins\<close> works on the array that the cached
  group object refers to: the state it leaves has, at the reference \<open>plugins g\<close> of the
  cache entry \<open>g\<close> of the group, the grants after every \<^verbatim>\<open>push\<close> and \<^verbatim>\<open>splice\<close> of the
  loop. Every later lookup of the group inside the cache window returns this entry, and
  a later call without a user inside the window returns the names computed for the user.
\<close>

theorem getAvailablePlugins_mutates_cache:
  assumes lookup: "getGroupMapFromCache s groupId tg ug = (Inr (Some g), s1)"
    and cat: "getPluginListFromCache s1 tp up = (Inr ps, s2)"
    and user: "u \<noteq> 0"
    and ids': "ids' = foldl (override u) (arrays s2 (plugins g)) ps"
    and s3: "s3 = s2\<lparr>arrays := (arrays s2)(plugins g := ids')\<rparr>"
  shows "getAvailablePlugins s groupId (Some u) tg ug tp up = (Inr (plugin_names ps ids'), s3)
     \<and> groupCache s3 groupId = Some g
     \<and> arrays s3 (plugins g) = ids'
     \<and> (\<forall>t t'. \<not> isCacheExpired s3 cacheKeys_groups t
           \<longrightarrow> getGroupMapFromCache s3 groupId t t' = (Inr (Some g), s3))
     \<and> (\<forall>t t' v v'. \<not> isCacheExpired s3 cacheKeys_groups t \<and> \<not> isCacheExpired s3 cacheKeys_plugins v
           \<longrightarrow> getAvailablePlugins s3 groupId None t t' v v' = (Inr (plugin_names ps ids'), s3))"
proof -
  have call: "getAvailablePlugins s groupId (Some u) tg ug tp up = (Inr (plugin_names ps ids'), s3)"
    using getAvailablePlugins_found(3) [OF lookup cat user] ids' s3 by simp
  have entry: "groupCache s3 groupId = Some g"
    using getGroupMapFromCache_entry [OF lookup] getPluginListFromCache_frame(2) [OF cat] s3
    by simp
  have arr: "arrays s3 (plugins g) = ids'"
    using s3 by simp
  have snap: "pluginCache s3 = Some ps"
    using getPluginListFromCache_result_cached [OF cat] s3 by simp
  have look: "getGroupMapFromCache s3 groupId t t' = (Inr (Some g), s3)"
    if "\<not> isCacheExpired s3 cacheKeys_groups t" for t t'
    using that entry by (simp add: getGroupMapFromCache_def)
  have later: "getAvailablePlugins s3 groupId None t t' v v' = (Inr (plugin_names ps ids'), s3)"
    if "\<not> isCacheExpired s3 cacheKeys_groups t \<and> \<not> isCacheExpired s3 cacheKeys_plugins v"
    for t t' v v'
  proof -
    have c: "getPluginListFromCache s3 v v' = (Inr ps, s3)"
      using that snap by (simp add: getPluginListFromCache_def)
    show ?thesis
      using getAvailablePlugins_found(1) [OF look c] that arr by simp
  qed
  show ?thesis
    using call entry arr look later by blast
qed

theorem getAvailablePlugins_mutates_cache_witness:
  "fst (getAvailablePlugins example_db 7 (Some 42) 5000 5001 5002 5003) = Inr [''a'', ''c'']
   \<and> groupCache personalised_db 7 = Some example_group
   \<and> arrays personalised_db (plugins example_group) = [1, 3]
   \<and> getGroupMapFromCache personalised_db 7 5004 5005 = (Inr (Some example_group), personalised_db)
   \<and> getAvailablePlugins personalised_db 7 None 5004 5005 5006 5007
        = (Inr [''a'', ''c''], personalised_db)"
proof -
  let ?ids = "foldl (override 42) (arrays resolved_db (plugins example_group)) example_catalog"
  let ?s3 = "resolved_db\<lparr>arrays := (arrays resolved_db)(plugins example_group := ?ids)\<rparr>"
  have u: "(42::int) \<noteq> 0" by simp
  note t = getAvailablePlugins_mutates_cache [OF example_lookup example_catalog_read u refl refl]
  from t have call: "getAvailablePlugins example_db 7 (Some 42) 5000 5001 5002 5003
      = (Inr (plugin_names example_catalog ?ids), ?s3)"
    by blast
  then have pd: "personalised_db = ?s3"
    by (simp add: personalised_db_def)
  have ids: "?ids = [1, 3]" by code_simp
  have nm: "plugin_names example_catalog [1, 3] = [''a'', ''c'']" by code_simp
  have fresh: "\<not> isCacheExpired personalised_db cacheKeys_groups 5004"
    "\<not> isCacheExpired personalised_db cacheKeys_plugins 5006"
    by code_simp+
  from t have "groupCache ?s3 7 = Some example_group" by blast
  moreover from t have "arrays ?s3 (plugins example_group) = ?ids" by blast
  moreover from t fresh [unfolded pd]
  have "getGroupMapFromCache ?s3 7 5004 5005 = (Inr (Some example_group), ?s3)" by blast
  moreover from t fresh [unfolded pd]
  have "getAvailablePlugins ?s3 7 None 5004 5005 5006 5007
      = (Inr (plugin_names example_catalog ?ids), ?s3)" by blast
  ultimately show ?thesis
    using call unfolding pd by (simp add: ids nm)
qed

section \<open>Internal plugins of a group\<close>

lemma uniq_set [simp]: "set (uniq xs) = set xs"
  by (induction xs rule: uniq.induct) auto

lemma getInternalPluginIds_up:
  "\<not> down (db s) \<Longrightarrow>
   getInternalPluginIds s =
     (Inr (map plugin_id (filter plugin_internal
             (filter (\<lambda>p. plugin_name p \<in> set (registeredPlugins s))
                (map mvcPlugin (plugins_table (db s)))))),
      s\<lparr>db := (db s)\<lparr>plugin_selects := Suc (plugin_selects (db s))\<rparr>\<rparr>)"
  by (simp add: getInternalPluginIds_def getPlugins_def Let_def)

lemma getInternalPluginIds_down:
  "down (db s) \<Longrightarrow>
   getInternalPluginIds s =
     (Inl StoreError, s\<lparr>db := (db s)\<lparr>plugin_selects := Suc (plugin_selects (db s))\<rparr>\<rparr>)"
  by (simp add: getInternalPluginIds_def getPlugins_def Let_def)

lemma internal_ids_rows:
  "map plugin_id (filter plugin_internal
      (filter (\<lambda>p. plugin_name p \<in> N) (map mvcPlugin rows)))
   = map p_id (filter (\<lambda>r. p_internal r \<and> p_name r \<in> N) rows)"
  by (induction rows) (auto simp: mvcPlugin_def)

lemma getInternalPluginIds_registered:
  "\<not> down (db s) \<Longrightarrow>
   getInternalPluginIds s =
     (Inr (registered_internal_ids s),
      s\<lparr>db := (db s)\<lparr>plugin_selects := Suc (plugin_selects (db s))\<rparr>\<rparr>)"
  unfolding registered_internal_ids_def internal_ids_rows [symmetric]
  by (rule getInternalPluginIds_up)

lemma registered_internal_ids_groups [simp]:
  "registered_internal_ids (s\<lparr>db := (db s)\<lparr>groups_table := gt, groups_seq := q, plugin_selects := k\<rparr>\<rparr>)
     = registered_internal_ids s"
  "registered_internal_ids (s\<lparr>db := (db s)\<lparr>plugin_selects := k, groups_table := gt\<rparr>\<rparr>)
     = registered_internal_ids s"
  "registered_internal_ids (s\<lparr>db := (db s)\<lparr>groups_table := gt\<rparr>\<rparr>)
     = registered_internal_ids s"
  by (simp_all add: registered_internal_ids_def)

lemma addGroup_result:
  assumes "addGroup s grp = (Inr i, s')"
  shows "\<not> down (db s)"
    and "\<not> list_ex (\<lambda>r. g_group_id r = in_group_id grp) (groups_table (db s))"
    and "i = groups_seq (db s) + 1"
    and "groups_table (db s') = groups_table (db s) @
           [\<lparr>g_id = i, g_name = in_name grp, g_group_id = in_group_id grp,
             g_admins = join_numbers (in_admins grp), g_expired_at = in_expired_at grp,
             g_plugins = join_numbers (uniq (registered_internal_ids s @ or_else (in_plugins grp) []))\<rparr>]"
    and "registered_internal_ids s' = registered_internal_ids s"
proof -
  show up: "\<not> down (db s)"
    using assms by (cases "down (db s)") (simp_all add: addGroup_def getInternalPluginIds_down)
  note ids = getInternalPluginIds_registered [OF up]
  show "\<not> list_ex (\<lambda>r. g_group_id r = in_group_id grp) (groups_table (db s))"
    using assms up by (auto simp: addGroup_def ids Let_def split: if_splits)
  show "i = groups_seq (db s) + 1"
    using assms up by (auto simp: addGroup_def ids Let_def split: if_splits)
  show "groups_table (db s') = groups_table (db s) @
           [\<lparr>g_id = i, g_name = in_name grp, g_group_id = in_group_id grp,
             g_admins = join_numbers (in_admins grp), g_expired_at = in_expired_at grp,
             g_plugins = join_numbers (uniq (registered_internal_ids s @ or_else (in_plugins grp) []))\<rparr>]"
    using assms up by (auto simp: addGroup_def ids Let_def split: if_splits)
  show "registered_internal_ids s' = registered_internal_ids s"
    using assms up by (auto simp: addGroup_def ids Let_def registered_internal_ids_def split: if_splits)
qed

lemma updateGroup_result:
  assumes "updateGroup s grp = (Inr (Some n), s')" "gp_plugins grp = Some given"
  shows "\<not> down (db s)"
    and "n = length (filter (\<lambda>r. g_id r = gp_id grp) (groups_table (db s)))"
    and "0 < n"
    and "groups_table (db s') =
           map (\<lambda>r. if g_id r = gp_id grp
                     then r\<lparr>g_name := or_else (gp_name grp) (g_name r),
                            g_group_id := or_else (gp_group_id grp) (g_group_id r),
                            g_expired_at := or_else (gp_expired_at grp) (g_expired_at r),
                            g_admins := or_else (map_option join_numbers (gp_admins grp)) (g_admins r),
                            g_plugins := join_numbers (uniq (registered_internal_ids s @ given))\<rparr>
                     else r)
             (groups_table (db s))"
    and "registered_internal_ids s' = registered_internal_ids s"
proof -
  show up: "\<not> down (db s)"
    using assms by (cases "down (db s)") (simp_all add: updateGroup_def)
  note ids = getInternalPluginIds_registered [OF up]
  obtain has where has: "find (\<lambda>r. g_id r = gp_id grp) (groups_table (db s)) = Some has"
    using assms up by (cases "find (\<lambda>r. g_id r = gp_id grp) (groups_table (db s))")
      (simp_all add: updateGroup_def)
  show n: "n = length (filter (\<lambda>r. g_id r = gp_id grp) (groups_table (db s)))"
    using assms up has by (auto simp: updateGroup_def ids Let_def split: if_splits)
  have "has \<in> set (groups_table (db s)) \<and> g_id has = gp_id grp"
    using has by (auto simp: find_Some_iff)
  then have "filter (\<lambda>r. g_id r = gp_id grp) (groups_table (db s)) \<noteq> []"
    by (auto simp: filter_empty_conv)
  then show "0 < n" using n by simp
  show "groups_table (db s') =
           map (\<lambda>r. if g_id r = gp_id grp
                     then r\<lparr>g_name := or_else (gp_name grp) (g_name r),
                            g_group_id := or_else (gp_group_id grp) (g_group_id r),
                            g_expired_at := or_else (gp_expired_at grp) (g_expired_at r),
                            g_admins := or_else (map_option join_numbers (gp_admins grp)) (g_admins r),
                            g_plugins := join_numbers (uniq (registered_internal_ids s @ given))\<rparr>
                     else r)
             (groups_table (db s))"
    using assms up has by (auto simp: updateGroup_def ids Let_def or_else_def split: if_splits)
  show "registered_internal_ids s' = registered_internal_ids s"
    using assms up has
    by (auto simp: updateGroup_def ids Let_def registered_internal_ids_def split: if_splits)
qed

text \<open>
  C3, as amended. After a successful \<^verbatim>\<open>addGroup\<close>, and after a successful \<^verbatim>\<open>updateGroup\<close>
  whose fields include \<open>plugins\<close>, the persisted \<open>plugins\<close> of the group hold the id of
  every plugin with \<open>internal = true\<close> whose name is registered in the runtime: the ids
  that \<^verbatim>\<open>getInternalPluginIds\<close> returns, which reads the plugins through \<^verbatim>\<open>getPlugins\<close>
  and its filter on \<open>registeredPlugins\<close>.
\<close>

theorem internal_plugins_forced:
  "(addGroup s new = (Inr i, s') \<longrightarrow>
      (\<exists>r xs. r \<in> set (groups_table (db s')) \<and> g_id r = i \<and> g_group_id r = in_group_id new
          \<and> g_plugins r = join_numbers xs \<and> set (registered_internal_ids s') \<subseteq> set xs)
      \<and> (\<forall>r \<in> set (groups_table (db s')). g_group_id r = in_group_id new
            \<longrightarrow> set (registered_internal_ids s') \<subseteq> set (toArrayNumber (g_plugins r))))
   \<and> (updateGroup s patch = (Inr (Some n), s') \<and> gp_plugins patch = Some given \<longrightarrow>
        0 < n
        \<and> (\<exists>r \<in> set (groups_table (db s')). g_id r = gp_id patch)
        \<and> (\<forall>r \<in> set (groups_table (db s')). g_id r = gp_id patch
              \<longrightarrow> g_plugins r = join_numbers (uniq (registered_internal_ids s' @ given))
               \<and> set (registered_internal_ids s') \<subseteq> set (toArrayNumber (g_plugins r))))"
proof (intro conjI impI)
  assume a: "addGroup s new = (Inr i, s')"
  note r = addGroup_result [OF a]
  let ?xs = "uniq (registered_internal_ids s @ or_else (in_plugins new) [])"
  let ?row = "\<lparr>g_id = i, g_name = in_name new, g_group_id = in_group_id new,
             g_admins = join_numbers (in_admins new), g_expired_at = in_expired_at new,
             g_plugins = join_numbers ?xs\<rparr>"
  have "?row \<in> set (groups_table (db s'))" using r(4) by simp
  moreover have "set (registered_internal_ids s') \<subseteq> set ?xs" using r(5) by simp
  ultimately show "\<exists>r xs. r \<in> set (groups_table (db s')) \<and> g_id r = i \<and> g_group_id r = in_group_id new
          \<and> g_plugins r = join_numbers xs \<and> set (registered_internal_ids s') \<subseteq> set xs"
    by (intro exI [of _ ?row] exI [of _ ?xs]) simp
  show "\<forall>r \<in> set (groups_table (db s')). g_group_id r = in_group_id new
            \<longrightarrow> set (registered_internal_ids s') \<subseteq> set (toArrayNumber (g_plugins r))"
    using r(2,4,5) by (auto simp: list_ex_iff toArrayNumber_join_numbers)
next
  assume a: "updateGroup s patch = (Inr (Some n), s') \<and> gp_plugins patch = Some given"
  then have u: "updateGroup s patch = (Inr (Some n), s')" and g: "gp_plugins patch = Some given"
    by simp_all
  note r = updateGroup_result [OF u g]
  show "0 < n" by (rule r(3))
  have "filter (\<lambda>r. g_id r = gp_id patch) (groups_table (db s)) \<noteq> []"
    using r(2,3) by auto
  then obtain r0 where "r0 \<in> set (groups_table (db s))" "g_id r0 = gp_id patch"
    by (auto simp: filter_empty_conv)
  then show "\<exists>r \<in> set (groups_table (db s')). g_id r = gp_id patch"
    unfolding r(4) set_map bex_simps by (intro bexI [of _ r0]) simp_all
  show "\<forall>r \<in> set (groups_table (db s')). g_id r = gp_id patch
              \<longrightarrow> g_plugins r = join_numbers (uniq (registered_internal_ids s' @ given))
               \<and> set (registered_internal_ids s') \<subseteq> set (toArrayNumber (g_plugins r))"
    unfolding r(4) r(5) by (auto simp: toArrayNumber_join_numbers)
qed

theorem internal_plugins_forced_witness:
  "fst (addGroup core_db example_input) = Inr 1
   \<and> registered_internal_ids added_db = [1]
   \<and> map g_plugins (groups_table (db added_db)) = [''1,4'']
   \<and> set [1] \<subseteq> set (toArrayNumber ''1,4'')
   \<and> fst (updateGroup added_db example_patch) = Inr (Some 1)
   \<and> registered_internal_ids updated_db = [1]
   \<and> map g_plugins (groups_table (db updated_db)) = [''1'']
   \<and> set [1] \<subseteq> set (toArrayNumber ''1'')"
proof -
  have f1: "fst (addGroup core_db example_input) = Inr 1" by code_simp
  then have add: "addGroup core_db example_input = (Inr 1, added_db)"
    unfolding added_db_def by (metis prod.collapse)
  have f2: "fst (updateGroup added_db example_patch) = Inr (Some 1)" by code_simp
  then have upd: "updateGroup added_db example_patch = (Inr (Some 1), updated_db)"
    unfolding updated_db_def by (metis prod.collapse)
  have i1: "registered_internal_ids added_db = [1]" by code_simp
  have i2: "registered_internal_ids updated_db = [1]" by code_simp
  have r1: "groups_table (db added_db) =
      [\<lparr>g_id = 1, g_name = ''g'', g_group_id = 7, g_admins = ''5'',
        g_expired_at = ''2030-01-01'', g_plugins = ''1,4''\<rparr>]" by code_simp
  have r2: "groups_table (db updated_db) =
      [\<lparr>g_id = 1, g_name = ''g'', g_group_id = 7, g_admins = ''5'',
        g_expired_at = ''2030-01-01'', g_plugins = ''1''\<rparr>]" by code_simp
  have p: "gp_plugins example_patch = Some []" by (simp add: example_patch_def)
  have "\<forall>r \<in> set (groups_table (db added_db)). g_group_id r = in_group_id example_input
            \<longrightarrow> set (registered_internal_ids added_db) \<subseteq> set (toArrayNumber (g_plugins r))"
    using internal_plugins_forced [where s = core_db and new = example_input and i = 1
        and s' = added_db] add by blast
  then have a: "set [1] \<subseteq> set (toArrayNumber ''1,4'')"
    by (simp add: r1 i1 example_input_def)
  have "\<forall>r \<in> set (groups_table (db updated_db)). g_id r = gp_id example_patch
              \<longrightarrow> g_plugins r = join_numbers (uniq (registered_internal_ids updated_db @ []))
               \<and> set (registered_internal_ids updated_db) \<subseteq> set (toArrayNumber (g_plugins r))"
    using internal_plugins_forced [where s = added_db and patch = example_patch and n = 1
        and s' = updated_db and given = "[]"] upd p by blast
  then have b: "set [1] \<subseteq> set (toArrayNumber ''1'')"
    by (auto simp: r2 i2 example_patch_def)
  show ?thesis
    using f1 f2 i1 i2 a b by (simp add: r1 r2)
qed

text \<open>
  C3 as stated fails for an internal plugin that is not registered. Plugin \<open>py\<close> is
  registered as internal and external, and the external plugins are cleared: its row
  stays, with \<open>internal = true\<close> and id 1, and its name is no longer registered. A group
  added then is persisted with the plugins 4 it asked for, and an update that sets its
  plugins to the empty list persists the empty string: neither holds the id 1.
\<close>

theorem unregistered_internal_not_forced:
  "map p_internal (plugins_table (db unregistered_internal_db)) = [True]
   \<and> map p_id (plugins_table (db unregistered_internal_db)) = [1]
   \<and> registeredPlugins unregistered_internal_db = []
   \<and> fst (addGroup unregistered_internal_db example_input) = Inr 1
   \<and> all_internal_ids (snd (addGroup unregistered_internal_db example_input)) = [1]
   \<and> map g_plugins (groups_table (db (snd (addGroup unregistered_internal_db example_input))))
       = [''4'']
   \<and> toArrayNumber ''4'' = [4]
   \<and> fst (updateGroup (snd (addGroup unregistered_internal_db example_input)) example_patch)
       = Inr (Some 1)
   \<and> map g_plugins (groups_table (db (snd (updateGroup
         (snd (addGroup unregistered_internal_db example_input)) example_patch)))) = [[]]
   \<and> toArrayNumber [] = []"
  by (intro conjI; code_simp)

section \<open>Lists through the store\<close>

lemma updatePlugin_result:
  assumes "updatePlugin s plugin = (Inr (Some n), s')"
  shows "plugins_table (db s') =
           map (\<lambda>r. if p_id r = pp_id plugin
                     then r\<lparr>p_name := or_else (pp_name plugin) (p_name r),
                            p_enabled := or_else (pp_enabled plugin) (p_enabled r),
                            p_internal := or_else (pp_internal plugin) (p_internal r),
                            p_threshold := or_else (pp_threshold plugin) (p_threshold r),
                            p_white_list_users :=
                              or_else (map_option join_numbers (pp_white_list_users plugin))
                                (p_white_list_users r),
                            p_black_list_users :=
                              or_else (map_option join_numbers (pp_black_list_users plugin))
                                (p_black_list_users r)\<rparr>
                     else r)
             (plugins_table (db s))"
  using assms
  by (auto simp: updatePlugin_def Let_def split: if_splits option.splits)

lemma getPlugins_reads:
  assumes "getPlugins s = (Inr ps, s')" "p \<in> set ps"
  shows "\<exists>r \<in> set (plugins_table (db s)). p = mvcPlugin r"
  using assms by (auto simp: getPlugins_def Let_def split: if_splits)

lemma getGroups_reads:
  assumes "getGroups s = (Inr gs, s')" "g \<in> set gs"
  shows "\<exists>r \<in> set (groups_table (db s)). group_row_id g = g_id r \<and> group_id g = g_group_id r
           \<and> expired_at g = g_expired_at r \<and> admins g = toArrayNumber (g_admins r)
           \<and> arrays s' (plugins g) = toArrayNumber (g_plugins r)"
proof -
  let ?rows = "groups_table (db s)"
  have m: "mvcGroups ?rows s = (gs, s')"
    using assms(1) by (auto simp: getGroups_def split: if_splits prod.splits)
  note h = mvcGroups_heap [OF m]
  have len: "length gs = length ?rows" using h by simp
  obtain i where i: "i < length gs" "gs ! i = g"
    using assms(2) by (auto simp: in_set_conv_nth)
  have gi: "g = mvcGroup_of (?rows ! i) (next_ref s + i)"
    using h i len by simp
  have arr: "arrays s' (next_ref s + i) = toArrayNumber (g_plugins (?rows ! i))"
    using h i len by simp
  have "?rows ! i \<in> set ?rows" using i len by simp
  then show ?thesis
    using gi arr by (intro bexI [of _ "?rows ! i"]) (simp_all add: mvcGroup_of_def)
qed

text \<open>
  C10. For each list-valued field, serialising a sequence of safe integers to the
  comma-delimited string and parsing it back gives the sequence again, in order, and the
  empty string parses to the empty sequence, not to a sequence of one element. Through the
  code: the whitelist and the blacklist that \<^verbatim>\<open>updatePlugin\<close> has written are the lists
  that \<^verbatim>\<open>getPlugins\<close> reads for that plugin; the admins that \<^verbatim>\<open>updateGroup\<close> has written are
  the admins that \<^verbatim>\<open>getGroups\<close> reads for that group, and its \<open>plugins\<close> array holds the
  sequence that \<^verbatim>\<open>updateGroup\<close> serialised: the internal ids, then the plugins given,
  each once.
\<close>

theorem list_field_roundtrip:
  "((\<forall>x \<in> set xs. safe_integer x) \<longrightarrow> toArrayNumber (join_numbers xs) = xs)
   \<and> toArrayNumber [] = []
   \<and> (updatePlugin s plugin = (Inr (Some n), s1)
        \<and> pp_white_list_users plugin = Some ws \<and> pp_black_list_users plugin = Some bs
        \<and> (\<forall>x \<in> set (ws @ bs). safe_integer x)
        \<and> getPlugins s1 = (Inr ps, s2)
      \<longrightarrow> (\<forall>p \<in> set ps. plugin_id p = pp_id plugin
             \<longrightarrow> white_list_users p = ws \<and> black_list_users p = bs))
   \<and> (updateGroup t grp = (Inr (Some m), t1)
        \<and> gp_admins grp = Some ads \<and> gp_plugins grp = Some given
        \<and> (\<forall>x \<in> set (ads @ registered_internal_ids t @ given). safe_integer x)
        \<and> getGroups t1 = (Inr gs, t2)
      \<longrightarrow> (\<forall>g \<in> set gs. group_row_id g = gp_id grp
             \<longrightarrow> admins g = ads
               \<and> arrays t2 (plugins g) = uniq (registered_internal_ids t @ given)))"
proof (intro conjI impI ballI)
  show "toArrayNumber (join_numbers xs) = xs"
    by (rule toArrayNumber_join_numbers)
  show "toArrayNumber [] = []"
    by (simp add: toArrayNumber_def)
next
  fix p
  assume a: "updatePlugin s plugin = (Inr (Some n), s1)
        \<and> pp_white_list_users plugin = Some ws \<and> pp_black_list_users plugin = Some bs
        \<and> (\<forall>x \<in> set (ws @ bs). safe_integer x)
        \<and> getPlugins s1 = (Inr ps, s2)"
    and p: "p \<in> set ps" and i: "plugin_id p = pp_id plugin"
  from a have u: "updatePlugin s plugin = (Inr (Some n), s1)" by (rule conjunct1)
  from a have w: "pp_white_list_users plugin = Some ws" by blast
  from a have b: "pp_black_list_users plugin = Some bs" by blast
  from a have g: "getPlugins s1 = (Inr ps, s2)" by blast
  obtain r where r: "r \<in> set (plugins_table (db s1))" "p = mvcPlugin r"
    using getPlugins_reads [OF g p] by blast
  have "p_id r = pp_id plugin" using i r(2) by (simp add: mvcPlugin_def)
  then have "p_white_list_users r = join_numbers ws \<and> p_black_list_users r = join_numbers bs"
    using r(1) unfolding updatePlugin_result [OF u] by (auto simp: w b or_else_def)
  then show "white_list_users p = ws" and "black_list_users p = bs"
    using r(2) by (simp_all add: mvcPlugin_def toArrayNumber_join_numbers)
next
  fix g
  assume a: "updateGroup t grp = (Inr (Some m), t1)
        \<and> gp_admins grp = Some ads \<and> gp_plugins grp = Some given
        \<and> (\<forall>x \<in> set (ads @ registered_internal_ids t @ given). safe_integer x)
        \<and> getGroups t1 = (Inr gs, t2)"
    and g: "g \<in> set gs" and i: "group_row_id g = gp_id grp"
  from a have u: "updateGroup t grp = (Inr (Some m), t1)" by (rule conjunct1)
  from a have ad: "gp_admins grp = Some ads" by blast
  from a have pl: "gp_plugins grp = Some given" by blast
  from a have rd: "getGroups t1 = (Inr gs, t2)" by blast
  obtain r where r: "r \<in> set (groups_table (db t1))" "group_row_id g = g_id r"
    "admins g = toArrayNumber (g_admins r)" "arrays t2 (plugins g) = toArrayNumber (g_plugins r)"
    using getGroups_reads [OF rd g] by blast
  have "g_id r = gp_id grp" using i r(2) by simp
  then have "g_admins r = join_numbers ads
      \<and> g_plugins r = join_numbers (uniq (registered_internal_ids t @ given))"
    using r(1) unfolding updateGroup_result(4) [OF u pl] by (auto simp: ad or_else_def)
  then show "admins g = ads"
    and "arrays t2 (plugins g) = uniq (registered_internal_ids t @ given)"
    using r(3,4) by (simp_all add: toArrayNumber_join_numbers)
qed

theorem list_field_roundtrip_witness:
  "toArrayNumber (join_numbers [42, - 7, 0]) = [42, - 7, 0]
   \<and> fst (updatePlugin example_db example_plugin_patch) = Inr (Some 1)
   \<and> map (\<lambda>p. (plugin_id p, white_list_users p, black_list_users p))
        (filter (\<lambda>p. plugin_id p = 1) (projr (fst (getPlugins plugin_patched_db))))
       = [(1, [42, 7], [9])]
   \<and> fst (updateGroup example_db example_group_patch) = Inr (Some 1)
   \<and> map (\<lambda>g. (group_row_id g, admins g,
                 arrays (snd (getGroups group_patched_db)) (plugins g)))
        (projr (fst (getGroups group_patched_db)))
       = [(1, [5, 6], [3, 1])]"
proof -
  note t = list_field_roundtrip [where xs = "[42, - 7, 0]" and s = example_db
      and plugin = example_plugin_patch and n = 1 and ?s1.0 = plugin_patched_db
      and ws = "[42, 7]" and bs = "[9]"
      and ps = "projr (fst (getPlugins plugin_patched_db))"
      and ?s2.0 = "snd (getPlugins plugin_patched_db)"
      and t = example_db and grp = example_group_patch and m = 1 and ?t1.0 = group_patched_db
      and ads = "[5, 6]" and given = "[3, 1]"
      and gs = "projr (fst (getGroups group_patched_db))"
      and ?t2.0 = "snd (getGroups group_patched_db)"]
  have safe1: "\<forall>x \<in> set [42, - 7, 0]. safe_integer x"
    by (simp add: safe_integer_def)
  have a: "toArrayNumber (join_numbers [42, - 7, 0]) = [42, - 7, 0]"
    using t safe1 by blast
  have f1: "fst (updatePlugin example_db example_plugin_patch) = Inr (Some 1)" by code_simp
  then have u1: "updatePlugin example_db example_plugin_patch = (Inr (Some 1), plugin_patched_db)"
    unfolding plugin_patched_db_def by (metis prod.collapse)
  have lists1: "pp_white_list_users example_plugin_patch = Some [42, 7]"
    "pp_black_list_users example_plugin_patch = Some [9]"
    "pp_id example_plugin_patch = 1"
    by (simp_all add: example_plugin_patch_def)
  have safe2: "\<forall>x \<in> set ([42, 7] @ [9]). safe_integer x"
    by (simp add: safe_integer_def)
  have isr1: "isl (fst (getPlugins plugin_patched_db)) = False" by code_simp
  then have g1: "getPlugins plugin_patched_db
      = (Inr (projr (fst (getPlugins plugin_patched_db))), snd (getPlugins plugin_patched_db))"
    by (metis prod.collapse sum.collapse(2))
  have all1: "\<forall>p \<in> set (projr (fst (getPlugins plugin_patched_db))). plugin_id p = 1
             \<longrightarrow> white_list_users p = [42, 7] \<and> black_list_users p = [9]"
    using t u1 lists1 safe2 g1 by simp
  have ids1: "map plugin_id (filter (\<lambda>p. plugin_id p = 1) (projr (fst (getPlugins plugin_patched_db))))
      = [1]" by code_simp
  have b: "map (\<lambda>p. (plugin_id p, white_list_users p, black_list_users p))
        (filter (\<lambda>p. plugin_id p = 1) (projr (fst (getPlugins plugin_patched_db))))
       = [(1, [42, 7], [9])]"
  proof -
    obtain p where p: "filter (\<lambda>p. plugin_id p = 1) (projr (fst (getPlugins plugin_patched_db))) = [p]"
      using ids1 by (auto simp: map_eq_Cons_conv)
    then have "p \<in> set (filter (\<lambda>p. plugin_id p = 1) (projr (fst (getPlugins plugin_patched_db))))"
      by simp
    then have "p \<in> set (projr (fst (getPlugins plugin_patched_db))) \<and> plugin_id p = 1"
      by simp
    then show ?thesis using all1 p by simp
  qed
  have f2: "fst (updateGroup example_db example_group_patch) = Inr (Some 1)" by code_simp
  then have u2: "updateGroup example_db example_group_patch = (Inr (Some 1), group_patched_db)"
    unfolding group_patched_db_def by (metis prod.collapse)
  have lists2: "gp_admins example_group_patch = Some [5, 6]"
    "gp_plugins example_group_patch = Some [3, 1]" "gp_id example_group_patch = 1"
    by (simp_all add: example_group_patch_def)
  have int0: "registered_internal_ids example_db = []" by code_simp
  have safe3: "\<forall>x \<in> set ([5, 6] @ registered_internal_ids example_db @ [3, 1]). safe_integer x"
    by (simp add: int0 safe_integer_def)
  have isr2: "isl (fst (getGroups group_patched_db)) = False" by code_simp
  then have g2: "getGroups group_patched_db
      = (Inr (projr (fst (getGroups group_patched_db))), snd (getGroups group_patched_db))"
    by (metis prod.collapse sum.collapse(2))
  have all2: "\<forall>g \<in> set (projr (fst (getGroups group_patched_db))). group_row_id g = 1
             \<longrightarrow> admins g = [5, 6]
               \<and> arrays (snd (getGroups group_patched_db)) (plugins g) = [3, 1]"
    using t u2 lists2 safe3 g2 by (simp add: int0)
  have ids2: "map group_row_id (projr (fst (getGroups group_patched_db))) = [1]" by code_simp
  have c: "map (\<lambda>g. (group_row_id g, admins g,
                 arrays (snd (getGroups group_patched_db)) (plugins g)))
        (projr (fst (getGroups group_patched_db)))
       = [(1, [5, 6], [3, 1])]"
  proof -
    obtain g where g: "projr (fst (getGroups group_patched_db)) = [g]"
      using ids2 by (auto simp: map_eq_Cons_conv)
    then have "group_row_id g = 1" using ids2 by simp
    then show ?thesis using all2 g by simp
  qed
  show ?thesis using a f1 b f2 c by blast
qed

end
